theory Spec2Isabelle
  imports
    Complex_Main
    "HOL-Library.Word"
    "HOL-Library.Char_ord"
    "HOL-Library.List_Lexorder"
begin

unbundle bit_operations_syntax

section \<open>Python values used by \<^verbatim>\<open>backend/app.py\<close>\<close>

text \<open>
  Python integers are unbounded and are modelled by \<^typ>\<open>int\<close>; strings are
  \<^typ>\<open>string\<close>, a character being a code point below 256; a \<^verbatim>\<open>dict\<close> is an association
  list in insertion order with distinct keys, because the matcher iterates over it and the
  order is observable.
  An exception is a value of \<open>py_exc\<close> on the left of a sum.
\<close>

datatype py_exc =
    ValueError | TypeError | OverflowError | IndexError | AttributeError
  | JSONDecodeError | LibraryError

text \<open>\<^verbatim>\<open>d[k] = v\<close>: an existing key keeps its position, a new key is appended.\<close>

fun dict_set :: "('k \<times> 'v) list \<Rightarrow> 'k \<Rightarrow> 'v \<Rightarrow> ('k \<times> 'v) list" where
  "dict_set [] k v = [(k, v)]"
| "dict_set ((k', v') # kvs) k v =
     (if k' = k then (k, v) # kvs else (k', v') # dict_set kvs k v)"

subsection \<open>\<^verbatim>\<open>int.bit_count\<close> and \<^verbatim>\<open>hamming_distance_int\<close>\<close>

fun popcount :: "nat \<Rightarrow> nat" where
  "popcount n = (if n = 0 then 0 else n mod 2 + popcount (n div 2))"

declare popcount.simps [simp del]

text \<open>\<^verbatim>\<open>int.bit_count()\<close>: the number of ones in the binary form of the absolute value.\<close>

definition bit_count :: "int \<Rightarrow> int" where
  "bit_count x = int (popcount (nat \<bar>x\<bar>))"

text \<open>\<^verbatim>\<open>return (a ^ b).bit_count()\<close>; \<^verbatim>\<open>^\<close> on Python integers is the two's-complement
  exclusive or of unbounded width, as \<open>XOR\<close> on \<^typ>\<open>int\<close> is.\<close>

definition hamming_distance_int :: "int \<Rightarrow> int \<Rightarrow> int" where
  "hamming_distance_int a b = bit_count (a XOR b)"

subsection \<open>\<^verbatim>\<open>round\<close>, \<^verbatim>\<open>str\<close>, \<^verbatim>\<open>int\<close> and \<^verbatim>\<open>%02x\<close>\<close>

text \<open>
  \<^verbatim>\<open>round(x)\<close> rounds to the nearest integer, a tie to the even one. A floating-point
  value is the rational it denotes.
\<close>

definition py_round :: "rat \<Rightarrow> int" where
  "py_round x =
     (let f = \<lfloor>x\<rfloor>; r = x - of_int f
      in if r < 1 / 2 then f else if 1 / 2 < r then f + 1
         else if even f then f else f + 1)"

subsection \<open>Binary64 arithmetic\<close>

text \<open>
  Division and multiplication of Python floats give the binary64 number nearest to the
  exact result, a tie to the even significand. \<open>fl64 x\<close> is that number: with
  \<open>2\<^sup>e \<le> |x| < 2\<^sup>e\<^sup>+\<^sup>1\<close>, the multiple of \<open>2\<^sup>e\<^sup>-\<^sup>5\<^sup>2\<close> nearest to \<open>x\<close>. Overflow and subnormal
  numbers are left out: every quotient and product of the program lies between
  \<open>2\<^sup>-\<^sup>1\<^sup>0\<^sup>2\<^sup>2\<close> and \<open>2\<^sup>1\<^sup>0\<^sup>2\<^sup>4\<close> or is 0.
\<close>

fun log2_nat :: "nat \<Rightarrow> nat" where
  "log2_nat n = (if n < 2 then 0 else Suc (log2_nat (n div 2)))"

declare log2_nat.simps [simp del]

text \<open>For \<open>x > 0\<close>, the \<open>e\<close> with \<open>2\<^sup>e \<le> x < 2\<^sup>e\<^sup>+\<^sup>1\<close>.\<close>

definition float_exponent :: "rat \<Rightarrow> int" where
  "float_exponent x =
     (if 1 \<le> x then int (log2_nat (nat \<lfloor>x\<rfloor>))
      else - int (Suc (log2_nat (nat \<lceil>1 / x\<rceil> - 1))))"

definition fl64 :: "rat \<Rightarrow> rat" where
  "fl64 x =
     (if x = 0 then 0
      else (let ulp = 2 powi (float_exponent \<bar>x\<bar> - 52)
            in sgn x * of_int (py_round (\<bar>x\<bar> / ulp)) * ulp))"

text \<open>\<^verbatim>\<open>round(x, ndigits)\<close> for a float \<open>x\<close>: the decimal with \<open>ndigits\<close> places nearest to
  the exact value of \<open>x\<close>, then the float nearest to that decimal.\<close>

definition py_round_to :: "rat \<Rightarrow> nat \<Rightarrow> rat" where
  "py_round_to x ndigits = fl64 (of_int (py_round (x * 10 ^ ndigits)) / 10 ^ ndigits)"

definition digit_char :: "nat \<Rightarrow> char" where
  "digit_char d = ''0123456789abcdef'' ! d"

fun hex_str :: "nat \<Rightarrow> string" where
  "hex_str n = (if n < 16 then [digit_char n] else hex_str (n div 16) @ [digit_char (n mod 16)])"

declare hex_str.simps [simp del]

fun dec_str :: "nat \<Rightarrow> string" where
  "dec_str n = (if n < 10 then [digit_char n] else dec_str (n div 10) @ [digit_char (n mod 10)])"

declare dec_str.simps [simp del]

text \<open>\<^verbatim>\<open>str(n)\<close> for an integer.\<close>

definition py_str :: "int \<Rightarrow> string" where
  "py_str n = (if n < 0 then CHR ''-'' # dec_str (nat (- n)) else dec_str (nat n))"

text \<open>\<^verbatim>\<open>'%02x' % n\<close> for \<open>n \<ge> 0\<close>: lower-case hexadecimal, padded with zeros to two places.\<close>

definition fmt_02x :: "nat \<Rightarrow> string" where
  "fmt_02x n = (let s = hex_str n in replicate (2 - length s) CHR ''0'' @ s)"

text \<open>
  \<^verbatim>\<open>int(s)\<close> for a string: surrounding white space is stripped, one sign is allowed,
  then decimal digits, single underscores between digits only. More than 4300 digits
  are refused (the interpreter's default limit on integer string conversion). The white
  space that \<^verbatim>\<open>int\<close> strips is the space, the characters 9 to 13 and, above the ASCII range,
  the next-line character and the no-break space; the separators 28 to 31 are not
  stripped.
\<close>

definition is_space :: "char \<Rightarrow> bool" where
  "is_space c =
     (c \<in> set [CHR '' '', CHR 0x09, CHR 0x0A, CHR 0x0B, CHR 0x0C, CHR 0x0D, CHR 0x85, CHR 0xA0])"

definition is_digit :: "char \<Rightarrow> bool" where
  "is_digit c = (CHR ''0'' \<le> c \<and> c \<le> CHR ''9'')"

definition digit_val :: "char \<Rightarrow> nat" where
  "digit_val c = of_char c - of_char CHR ''0''"

definition py_strip :: "string \<Rightarrow> string" where
  "py_strip s = rev (dropWhile is_space (rev (dropWhile is_space s)))"

fun parse_digits :: "nat \<Rightarrow> bool \<Rightarrow> string \<Rightarrow> nat option" where
  "parse_digits acc prev_digit [] = (if prev_digit then Some acc else None)"
| "parse_digits acc prev_digit (c # cs) =
     (if is_digit c then parse_digits (acc * 10 + digit_val c) True cs
      else if c = CHR ''_'' \<and> prev_digit then parse_digits acc False cs
      else None)"

definition int_max_str_digits :: nat where
  "int_max_str_digits = 4300"

definition int_of_str :: "string \<Rightarrow> py_exc + int" where
  "int_of_str s =
     (let t = py_strip s;
          (neg, body) =
            (case t of
               c # cs \<Rightarrow> if c = CHR ''-'' then (True, cs) else if c = CHR ''+'' then (False, cs)
                         else (False, t)
             | [] \<Rightarrow> (False, t))
      in if int_max_str_digits < length (filter is_digit body) then Inl ValueError
         else case parse_digits 0 False body of
                None \<Rightarrow> Inl ValueError
              | Some n \<Rightarrow> Inr (if neg then - int n else int n))"

subsection \<open>JSON documents\<close>

text \<open>
  A JSON document, and the Python value \<^verbatim>\<open>json.load\<close> makes of it. \<open>JNaN\<close> and \<open>JInf\<close> are
  the floats \<^verbatim>\<open>nan\<close> and \<^verbatim>\<open>inf\<close> or \<^verbatim>\<open>-inf\<close>. The items of a \<open>JObj\<close> are those of the
  \<^verbatim>\<open>dict\<close>, in order, with distinct keys.
\<close>

datatype json =
    JNull | JBool bool | JInt int | JFloat rat | JNaN | JInf | JStr string
  | JArr "json list" | JObj "(string \<times> json) list"

text \<open>
  \<^verbatim>\<open>json.load\<close> converts every integer literal with \<^verbatim>\<open>int\<close> and raises \<^verbatim>\<open>ValueError\<close> when
  one has more digits than the limit; \<open>json_loadable\<close> says that none has.
\<close>

fun json_loadable :: "json \<Rightarrow> bool" where
  "json_loadable (JInt n) = (length (dec_str (nat \<bar>n\<bar>)) \<le> int_max_str_digits)"
| "json_loadable (JArr xs) = list_all json_loadable xs"
| "json_loadable (JObj kvs) = list_all json_loadable (map snd kvs)"
| "json_loadable _ = True"

text \<open>The truth value of a Python value, as \<^verbatim>\<open>if not v\<close> tests it.\<close>

fun py_truthy :: "json \<Rightarrow> bool" where
  "py_truthy JNull = False"
| "py_truthy (JBool b) = b"
| "py_truthy (JInt n) = (n \<noteq> 0)"
| "py_truthy (JFloat x) = (x \<noteq> 0)"
| "py_truthy JNaN = True"
| "py_truthy JInf = True"
| "py_truthy (JStr s) = (s \<noteq> [])"
| "py_truthy (JArr xs) = (xs \<noteq> [])"
| "py_truthy (JObj kvs) = (kvs \<noteq> [])"

text \<open>\<^verbatim>\<open>int(v)\<close> for a value read from JSON.\<close>

fun py_int :: "json \<Rightarrow> py_exc + int" where
  "py_int JNull = Inl TypeError"
| "py_int (JBool b) = Inr (if b then 1 else 0)"
| "py_int (JInt n) = Inr n"
| "py_int (JFloat x) = Inr (if 0 \<le> x then \<lfloor>x\<rfloor> else \<lceil>x\<rceil>)"
| "py_int JNaN = Inl ValueError"
| "py_int JInf = Inl OverflowError"
| "py_int (JStr s) = int_of_str s"
| "py_int (JArr _) = Inl TypeError"
| "py_int (JObj _) = Inl TypeError"

section \<open>The libraries the program calls\<close>

text \<open>
  Pillow, imagehash, NumPy, scikit-learn, OpenCV and the file system are not part of the
  repository. Each call the program makes to them is a field of \<open>externals\<close>; a result
  \<open>None\<close> stands for the call raising an exception. \<open>'img\<close> is the type of a decoded
  image object, \<open>'raw\<close> the type of undecoded bytes.
\<close>

type_synonym rgb = "nat \<times> nat \<times> nat"

record ('img, 'raw) externals =
  pil_open :: "'raw \<Rightarrow> 'img option"
    \<comment> \<open>\<^verbatim>\<open>Image.open\<close>\<close>
  pil_convert_rgb :: "'img \<Rightarrow> 'img option"
    \<comment> \<open>\<^verbatim>\<open>img.convert('RGB')\<close>\<close>
  pil_exif_transpose :: "'img \<Rightarrow> 'img option"
    \<comment> \<open>\<^verbatim>\<open>ImageOps.exif_transpose\<close>\<close>
  pil_size :: "'img \<Rightarrow> nat \<times> nat"
    \<comment> \<open>\<^verbatim>\<open>img.size\<close>, width first\<close>
  pil_resize :: "'img \<Rightarrow> nat \<times> nat \<Rightarrow> 'img option"
    \<comment> \<open>\<^verbatim>\<open>img.resize\<close>, with the filter the call site names\<close>
  imagehash_phash :: "'img \<Rightarrow> 64 word option"
    \<comment> \<open>\<^verbatim>\<open>imagehash.phash\<close>: an 8 by 8 hash, 16 hexadecimal digits\<close>
  np_pixels :: "'img \<Rightarrow> rgb list"
    \<comment> \<open>\<^verbatim>\<open>np.asarray(img).reshape(-1, 3)\<close>\<close>
  np_random_choice :: "rgb list \<Rightarrow> nat \<Rightarrow> rgb list"
    \<comment> \<open>the rows drawn by \<^verbatim>\<open>np.random.choice(..., replace=False)\<close>\<close>
  sk_kmeans :: "rgb list \<Rightarrow> nat \<Rightarrow> (nat list \<times> rgb list) option"
    \<comment> \<open>\<^verbatim>\<open>KMeans(n_clusters=k, n_init=5, random_state=42)\<close>: the labels of
       \<^verbatim>\<open>fit_predict\<close> and \<^verbatim>\<open>cluster_centers_.astype(np.int32)\<close>\<close>
  cv2_canny :: "'img \<Rightarrow> nat list option"
    \<comment> \<open>\<^verbatim>\<open>cv2.Canny(cv2.cvtColor(np.array(img), COLOR_RGB2GRAY), 100, 200)\<close>,
       flattened\<close>
  b64decode :: "string \<Rightarrow> 'raw option"
    \<comment> \<open>\<^verbatim>\<open>base64.b64decode\<close>\<close>
  images_dir :: string
    \<comment> \<open>\<^verbatim>\<open>IMAGES_DIR\<close>\<close>
  file_at :: "string \<Rightarrow> 'raw option"
    \<comment> \<open>the file at a path; \<open>None\<close> when \<^verbatim>\<open>os.path.exists\<close> is false\<close>

text \<open>\<^verbatim>\<open>os.path.join(a, b)\<close> on a POSIX system.\<close>

definition os_path_join :: "string \<Rightarrow> string \<Rightarrow> string" where
  "os_path_join a b =
     (if b \<noteq> [] \<and> hd b = CHR ''/'' then b
      else if a = [] \<or> last a = CHR ''/'' then a @ b
      else a @ ''/'' @ b)"

section \<open>Image normalisation and fingerprint\<close>

text \<open>
  \<^verbatim>\<open>preprocess_image_for_matching(pil_img, max_size=512)\<close>. The scale and the scaled
  sides are binary64 values; \<^verbatim>\<open>int\<close> truncates them.
\<close>

definition preprocess_image_for_matching ::
  "('img, 'raw) externals \<Rightarrow> 'img \<Rightarrow> nat \<Rightarrow> py_exc + 'img" where
  "preprocess_image_for_matching ext pil_img max_size =
     (let oriented = (case pil_exif_transpose ext pil_img of None \<Rightarrow> pil_img | Some t \<Rightarrow> t)
      in case pil_convert_rgb ext oriented of
           None \<Rightarrow> Inl LibraryError
         | Some rgb_img \<Rightarrow>
             (let (w, h) = pil_size ext rgb_img; max_dim = max w h
              in if max_size < max_dim then
                   (let scale = fl64 (rat_of_nat max_size / rat_of_nat max_dim);
                        new_w = nat \<lfloor>fl64 (rat_of_nat w * scale)\<rfloor>;
                        new_h = nat \<lfloor>fl64 (rat_of_nat h * scale)\<rfloor>
                    in case pil_resize ext rgb_img (new_w, new_h) of
                         None \<Rightarrow> Inl LibraryError
                       | Some resized \<Rightarrow> Inr resized)
                 else Inr rgb_img))"

text \<open>\<^verbatim>\<open>compute_phash_from_image\<close>: preprocess, hash, read the hexadecimal digits.\<close>

definition compute_phash_from_image :: "('img, 'raw) externals \<Rightarrow> 'img \<Rightarrow> py_exc + int" where
  "compute_phash_from_image ext pil_img =
     (case preprocess_image_for_matching ext pil_img 512 of
        Inl e \<Rightarrow> Inl e
      | Inr canonical \<Rightarrow>
          (case imagehash_phash ext canonical of
             None \<Rightarrow> Inl LibraryError
           | Some hsh \<Rightarrow> Inr (uint hsh)))"

section \<open>Palette and texture descriptors\<close>

record swatch =
  hex :: string
  percent :: int

definition rgb_to_hex :: "rgb \<Rightarrow> string" where
  "rgb_to_hex c = (case c of (r, g, b) \<Rightarrow> ''#'' @ fmt_02x r @ fmt_02x g @ fmt_02x b)"

text \<open>\<^verbatim>\<open>np.bincount(labels, minlength=k)\<close>.\<close>

definition bincount :: "nat list \<Rightarrow> nat \<Rightarrow> nat list" where
  "bincount labels minlength =
     map (count_list labels)
       [0 ..< max minlength (if labels = [] then 0 else Suc (Max (set labels)))]"

text \<open>
  The part of \<^verbatim>\<open>kmeans_palette\<close> after the clustering: the shares, the swatches and the
  normalisation of the first swatch. The share \<^verbatim>\<open>counts[i] / total\<close> and its product with
  100 are binary64 values.
\<close>

definition normalize_first :: "swatch list \<Rightarrow> swatch list" where
  "normalize_first palette =
     (let diff = 100 - sum_list (map percent palette)
      in case palette of
           [] \<Rightarrow> palette
         | p # ps \<Rightarrow>
             if diff \<noteq> 0 then p\<lparr>percent := max 0 (min 100 (percent p + diff))\<rparr> # ps
             else palette)"

definition palette_of_clusters :: "nat \<Rightarrow> nat list \<Rightarrow> rgb list \<Rightarrow> py_exc + swatch list" where
  "palette_of_clusters k labels centers =
     (let counts = bincount labels k;
          total = (if 0 < sum_list counts then sum_list counts else 1)
      in if length centers < k then Inl IndexError
         else Inr (normalize_first
                (map (\<lambda>i. \<lparr>hex = rgb_to_hex (centers ! i),
                            percent =
                              py_round
                                (fl64 (100 * fl64 (rat_of_nat (counts ! i) / rat_of_nat total)))\<rparr>)
                   [0 ..< k])))"

text \<open>\<^verbatim>\<open>kmeans_palette(pil_img, k=5)\<close>.\<close>

definition kmeans_palette ::
  "('img, 'raw) externals \<Rightarrow> 'img \<Rightarrow> nat \<Rightarrow> py_exc + swatch list" where
  "kmeans_palette ext pil_img k =
     (case pil_convert_rgb ext pil_img of
        None \<Rightarrow> Inl LibraryError
      | Some rgb_img \<Rightarrow>
          (case pil_resize ext rgb_img (200, 200) of
             None \<Rightarrow> Inl LibraryError
           | Some img \<Rightarrow>
               (let arr = np_pixels ext img;
                    arr_sample =
                      (if 50000 < length arr then np_random_choice ext arr 50000 else arr)
                in case sk_kmeans ext arr_sample k of
                     None \<Rightarrow> Inl LibraryError
                   | Some (labels, centers) \<Rightarrow> palette_of_clusters k labels centers)))"

text \<open>\<^verbatim>\<open>texture_edge_density\<close>: the share of non-zero pixels of the edge map, a binary64
  quotient.\<close>

definition texture_edge_density :: "('img, 'raw) externals \<Rightarrow> 'img \<Rightarrow> py_exc + rat" where
  "texture_edge_density ext pil_img =
     (case pil_convert_rgb ext pil_img of
        None \<Rightarrow> Inl LibraryError
      | Some img_rgb \<Rightarrow>
          (case cv2_canny ext img_rgb of
             None \<Rightarrow> Inl LibraryError
           | Some edges \<Rightarrow>
               (let edge_pixels = length (filter (\<lambda>e. e \<noteq> 0) edges);
                    total_pixels = (if 0 < length edges then length edges else 1)
                in Inr (fl64 (rat_of_nat edge_pixels / rat_of_nat total_pixels)))))"

section \<open>The request and the persisted fingerprint store\<close>

datatype 'raw upload =
    MultipartFile 'raw
      \<comment> \<open>\<^verbatim>\<open>req.files['file']\<close>\<close>
  | JsonBody "string option"
      \<comment> \<open>\<^verbatim>\<open>data.get('image_base64')\<close> of the JSON body, \<open>None\<close> when there is none\<close>

datatype decode_error = InvalidImageUpload | NoImageProvided | InvalidBase64Image

text \<open>\<^verbatim>\<open>decode_upload_to_image\<close>; the pair \<^verbatim>\<open>(None, message)\<close> is the left of the sum.\<close>

definition decode_upload_to_image ::
  "('img, 'raw) externals \<Rightarrow> 'raw upload \<Rightarrow> decode_error + 'img" where
  "decode_upload_to_image ext req =
     (case req of
        MultipartFile f \<Rightarrow>
          (case pil_open ext f of
             None \<Rightarrow> Inl InvalidImageUpload
           | Some opened \<Rightarrow>
               (case pil_convert_rgb ext opened of
                  None \<Rightarrow> Inl InvalidImageUpload
                | Some img \<Rightarrow> Inr img))
      | JsonBody field \<Rightarrow>
          (case field of
             None \<Rightarrow> Inl NoImageProvided
           | Some b64data \<Rightarrow>
               if b64data = [] then Inl NoImageProvided
               else
                 (let payload =
                        (if CHR '','' \<in> set b64data
                         then tl (dropWhile (\<lambda>c. c \<noteq> CHR '','') b64data)
                         else b64data)
                  in case b64decode ext payload of
                       None \<Rightarrow> Inl InvalidBase64Image
                     | Some binary \<Rightarrow>
                         (case pil_open ext binary of
                            None \<Rightarrow> Inl InvalidBase64Image
                          | Some opened \<Rightarrow>
                              (case pil_convert_rgb ext opened of
                                 None \<Rightarrow> Inl InvalidBase64Image
                               | Some img \<Rightarrow> Inr img)))))"

text \<open>The file \<^verbatim>\<open>embeddings.json\<close>: absent, not JSON, or a JSON document as it is
  written in the file.\<close>

datatype store_file = NoFile | NotJson | Stored json

text \<open>The loop of \<^verbatim>\<open>load_embeddings\<close> over \<^verbatim>\<open>raw.items()\<close>.\<close>

fun load_items :: "(string \<times> json) list \<Rightarrow> (string \<times> int) list \<Rightarrow> (string \<times> int) list" where
  "load_items [] res = res"
| "load_items ((k, v) # rest) res =
     (case py_int v of
        Inl _ \<Rightarrow> load_items rest res
      | Inr n \<Rightarrow> load_items rest (dict_set res k n))"

definition load_embeddings :: "store_file \<Rightarrow> py_exc + (string \<times> int) list" where
  "load_embeddings file =
     (case file of
        NoFile \<Rightarrow> Inr []
      | NotJson \<Rightarrow> Inl JSONDecodeError
      | Stored raw \<Rightarrow>
          if \<not> json_loadable raw then Inl ValueError
          else
            (case raw of
               JObj items \<Rightarrow> Inr (load_items items [])
             | _ \<Rightarrow> Inl AttributeError))"

text \<open>What one iteration of that loop adds for an item: the key with the integer, or
  nothing where \<^verbatim>\<open>int(v)\<close> raises.\<close>

definition parsed_entry :: "string \<times> json \<Rightarrow> (string \<times> int) option" where
  "parsed_entry kv = (case py_int (snd kv) of Inl _ \<Rightarrow> None | Inr n \<Rightarrow> Some (fst kv, n))"

text \<open>\<^verbatim>\<open>save_embeddings\<close>: every fingerprint as its decimal string, written by
  \<^verbatim>\<open>safe_write_json\<close> in one replace.\<close>

definition save_embeddings :: "(string \<times> int) list \<Rightarrow> store_file" where
  "save_embeddings mapping = Stored (JObj (map (\<lambda>(k, v). (k, JStr (py_str v))) mapping))"

section \<open>Rebuilding the index: \<^verbatim>\<open>precompute\<close>\<close>

text \<open>\<^verbatim>\<open>ARTWORKS\<close> is the \<^verbatim>\<open>dict\<close> read from \<^verbatim>\<open>artworks.json\<close> and changed by the admin
  routes. An id is a string, as every key read from the file is. An entry is any JSON
  value: the file is read unchecked, and the admin routes store the image name they are
  sent unchecked.\<close>

type_synonym artworks = "(string \<times> json) list"

datatype api_error =
    BadUpload decode_error
  | PHashFailed
  | NoEmbeddings
  | NoArtworks
  | Uncaught py_exc

definition http_status :: "api_error \<Rightarrow> nat" where
  "http_status e =
     (case e of BadUpload _ \<Rightarrow> 400 | PHashFailed \<Rightarrow> 500 | NoEmbeddings \<Rightarrow> 400
      | NoArtworks \<Rightarrow> 400 | Uncaught _ \<Rightarrow> 500)"

text \<open>The fixed part of the message of an error response; where the handler appends the
  text of the exception it caught, the part before that text. An uncaught exception has
  no message of the handler.\<close>

definition error_text :: "api_error \<Rightarrow> string" where
  "error_text e =
     (case e of
        NoEmbeddings \<Rightarrow> ''No embeddings found. Run /precompute first.''
      | NoArtworks \<Rightarrow> ''artworks.json missing or empty''
      | PHashFailed \<Rightarrow> ''Failed to compute pHash: ''
      | BadUpload InvalidImageUpload \<Rightarrow> ''Invalid image upload: ''
      | BadUpload NoImageProvided \<Rightarrow>
          ''No image provided. Expect multipart file '' @ [CHR 0x22] @ ''file'' @ [CHR 0x22]
            @ '' or JSON {'' @ [CHR 0x22] @ ''image_base64'' @ [CHR 0x22] @ '': dataURL}''
      | BadUpload InvalidBase64Image \<Rightarrow> ''Invalid base64 image: ''
      | Uncaught _ \<Rightarrow> [])"

text \<open>
  The body of the loop of \<^verbatim>\<open>precompute\<close> for one entry, up to the fingerprint.
  \<^verbatim>\<open>meta.get('image')\<close> and \<^verbatim>\<open>os.path.join\<close> stand before the \<^verbatim>\<open>try\<close>: an entry that is
  not an object raises \<^verbatim>\<open>AttributeError\<close>, an image name that is true and not a string
  raises \<^verbatim>\<open>TypeError\<close>. \<open>Inr None\<close> is \<^verbatim>\<open>continue\<close>: no image name, no file at the path,
  or an exception while opening, converting or hashing.
\<close>

definition entry_fingerprint :: "('img, 'raw) externals \<Rightarrow> json \<Rightarrow> py_exc + int option" where
  "entry_fingerprint ext meta =
     (case meta of
        JObj items \<Rightarrow>
          (case map_of items ''image'' of
             None \<Rightarrow> Inr None
           | Some filename \<Rightarrow>
               if \<not> py_truthy filename then Inr None
               else
                 (case filename of
                    JStr name \<Rightarrow>
                      (case file_at ext (os_path_join (images_dir ext) name) of
                         None \<Rightarrow> Inr None
                       | Some bytes \<Rightarrow>
                           (case pil_open ext bytes of
                              None \<Rightarrow> Inr None
                            | Some opened \<Rightarrow>
                                (case pil_convert_rgb ext opened of
                                   None \<Rightarrow> Inr None
                                 | Some img \<Rightarrow>
                                     (case compute_phash_from_image ext img of
                                        Inl _ \<Rightarrow> Inr None
                                      | Inr ph \<Rightarrow> Inr (Some ph)))))
                  | _ \<Rightarrow> Inl TypeError))
      | _ \<Rightarrow> Inl AttributeError)"

text \<open>The entries on which that body raises nothing: objects whose image name is absent,
  false or a string.\<close>

definition well_typed_entry :: "json \<Rightarrow> bool" where
  "well_typed_entry meta =
     (case meta of
        JObj items \<Rightarrow>
          (case map_of items ''image'' of
             None \<Rightarrow> True
           | Some filename \<Rightarrow>
               \<not> py_truthy filename \<or> (case filename of JStr _ \<Rightarrow> True | _ \<Rightarrow> False))
      | _ \<Rightarrow> False)"

text \<open>The loop of \<^verbatim>\<open>precompute\<close> over \<^verbatim>\<open>ARTWORKS.items()\<close>; its state is the mapping
  built so far and the counter. An exception ends it.\<close>

fun precompute_loop ::
  "('img, 'raw) externals \<Rightarrow> artworks \<Rightarrow>
   (string \<times> int) list \<times> nat \<Rightarrow> py_exc + (string \<times> int) list \<times> nat" where
  "precompute_loop ext [] st = Inr st"
| "precompute_loop ext ((art_id, meta) # rest) (embeddings, count) =
     (case entry_fingerprint ext meta of
        Inl e \<Rightarrow> Inl e
      | Inr None \<Rightarrow> precompute_loop ext rest (embeddings, count)
      | Inr (Some ph) \<Rightarrow> precompute_loop ext rest (dict_set embeddings art_id ph, count + 1))"

text \<open>What one iteration of that loop adds for an entry: the id with its fingerprint, or
  nothing where the entry is skipped.\<close>

definition indexed_entry ::
  "('img, 'raw) externals \<Rightarrow> string \<times> json \<Rightarrow> (string \<times> int) option" where
  "indexed_entry ext entry =
     (case entry_fingerprint ext (snd entry) of
        Inr (Some ph) \<Rightarrow> Some (fst entry, ph)
      | _ \<Rightarrow> None)"

text \<open>\<^verbatim>\<open>precompute\<close>: the response and the store file after the call. An exception of the
  loop leaves the handler before anything is written. The write of \<^verbatim>\<open>safe_write_json\<close> is
  taken to succeed.\<close>

definition precompute ::
  "('img, 'raw) externals \<Rightarrow> artworks \<Rightarrow> store_file \<Rightarrow> (api_error + nat) \<times> store_file" where
  "precompute ext ARTWORKS file =
     (if ARTWORKS = [] then (Inl NoArtworks, file)
      else
        (case precompute_loop ext ARTWORKS ([], 0) of
           Inl e \<Rightarrow> (Inl (Uncaught e), file)
         | Inr (embeddings, count) \<Rightarrow> (Inr count, save_embeddings embeddings)))"

section \<open>Matching: \<^verbatim>\<open>analyze\<close>\<close>

record debug_info =
  best_match :: "string option"
  best_distance :: int
  threshold :: int
  top_3 :: "(string \<times> int) list"

record response =
  matched :: bool
  match_id :: "string option"
  match_confidence :: "rat option"
  hamming_distance :: int
  palette :: "swatch list"
  texture_density :: rat
  debug :: debug_info
  metadata :: "json option"
  message :: "string option"

definition MAX_DISTANCE :: int where
  "MAX_DISTANCE = 40"

text \<open>
  \<^verbatim>\<open>max(0.0, min(1.0, 1.0 - (best_dist / 64.0)))\<close>. Division by 64 and the subtraction
  from 1 are exact in binary64 for every distance below \<open>2\<^sup>5\<^sup>3\<close>, so the rational is
  the float.
\<close>

definition confidence :: "int \<Rightarrow> rat" where
  "confidence best_dist = max 0 (min 1 (1 - of_int best_dist / 64))"

text \<open>The specification's \<open>clamp(x, lo, hi)\<close>, to compare \<open>confidence\<close> with.\<close>

definition clamp :: "rat \<Rightarrow> rat \<Rightarrow> rat \<Rightarrow> rat" where
  "clamp x lo hi = (if x < lo then lo else if hi < x then hi else x)"

text \<open>Every entry of the mapping with its distance to the query, in iteration order: what
  the search loop appends to \<^verbatim>\<open>all_distances\<close>.\<close>

definition distances :: "int \<Rightarrow> (string \<times> int) list \<Rightarrow> (string \<times> int) list" where
  "distances ph embeddings =
     map (\<lambda>(art_id, emb). (art_id, hamming_distance_int ph emb)) embeddings"

text \<open>The search loop of \<^verbatim>\<open>analyze\<close>; its state is \<^verbatim>\<open>best_id\<close>, \<^verbatim>\<open>best_dist\<close> and
  \<^verbatim>\<open>all_distances\<close>.\<close>

fun scan_embeddings ::
  "int \<Rightarrow> (string \<times> int) list \<Rightarrow>
   string option \<times> int option \<times> (string \<times> int) list \<Rightarrow>
   string option \<times> int option \<times> (string \<times> int) list" where
  "scan_embeddings ph [] st = st"
| "scan_embeddings ph ((art_id, emb) # rest) (best_id, best_dist, all_distances) =
     (let d = hamming_distance_int ph emb;
          all_distances' = all_distances @ [(art_id, d)]
      in if (case best_dist of None \<Rightarrow> True | Some b \<Rightarrow> d < b)
         then scan_embeddings ph rest (Some art_id, Some d, all_distances')
         else scan_embeddings ph rest (best_id, best_dist, all_distances'))"

definition no_match_message :: "int \<Rightarrow> string" where
  "no_match_message best_dist =
     ''No match found. Best distance was '' @ py_str best_dist @ '' (threshold: ''
       @ py_str MAX_DISTANCE
       @ ''). Try a clearer photo or ensure /precompute was run.''"

text \<open>\<^verbatim>\<open>ARTWORKS.get(best_id)\<close>: \<^verbatim>\<open>None\<close> for a missing id and for a stored null.\<close>

definition artwork_get :: "artworks \<Rightarrow> string \<Rightarrow> json option" where
  "artwork_get ARTWORKS i =
     (case map_of ARTWORKS i of None \<Rightarrow> None | Some JNull \<Rightarrow> None | Some v \<Rightarrow> Some v)"

text \<open>The part of \<^verbatim>\<open>analyze\<close> from the search loop to the response, for a fingerprint
  \<open>ph\<close> and a non-empty mapping.\<close>

definition match_response ::
  "artworks \<Rightarrow> int \<Rightarrow> swatch list \<Rightarrow> rat \<Rightarrow> (string \<times> int) list \<Rightarrow>
   py_exc + response" where
  "match_response ARTWORKS ph pal tex_density embeddings =
     (case scan_embeddings ph embeddings (None, None, []) of
        (best_id, None, all_distances) \<Rightarrow> Inl TypeError
      | (best_id, Some best_dist, all_distances) \<Rightarrow>
          (let sorted_distances = sort_key snd all_distances;
               conf = confidence best_dist;
               is_match = (best_dist \<le> MAX_DISTANCE);
               meta = (if is_match
                       then (case best_id of None \<Rightarrow> None | Some i \<Rightarrow> artwork_get ARTWORKS i)
                       else None)
           in Inr \<lparr>matched = is_match,
                   match_id = (if is_match then best_id else None),
                   match_confidence = (if is_match then Some (py_round_to conf 4) else None),
                   hamming_distance = best_dist,
                   palette = pal,
                   texture_density = py_round_to tex_density 6,
                   debug = \<lparr>best_match = best_id, best_distance = best_dist,
                             threshold = MAX_DISTANCE, top_3 = take 3 sorted_distances\<rparr>,
                   metadata = meta,
                   message = (case meta of None \<Rightarrow> Some (no_match_message best_dist)
                              | Some _ \<Rightarrow> None)\<rparr>))"

text \<open>\<^verbatim>\<open>analyze\<close>: the request handler.\<close>

definition analyze ::
  "('img, 'raw) externals \<Rightarrow> artworks \<Rightarrow> store_file \<Rightarrow> 'raw upload \<Rightarrow>
   api_error + response" where
  "analyze ext ARTWORKS file req =
     (case decode_upload_to_image ext req of
        Inl err \<Rightarrow> Inl (BadUpload err)
      | Inr pil_img \<Rightarrow>
          (case compute_phash_from_image ext pil_img of
             Inl _ \<Rightarrow> Inl PHashFailed
           | Inr ph \<Rightarrow>
               (let pal = (case kmeans_palette ext pil_img 5 of Inl _ \<Rightarrow> [] | Inr p \<Rightarrow> p);
                    tex_density =
                      (case texture_edge_density ext pil_img of Inl _ \<Rightarrow> 0 | Inr t \<Rightarrow> t)
                in case load_embeddings file of
                     Inl e \<Rightarrow> Inl (Uncaught e)
                   | Inr embeddings \<Rightarrow>
                       if embeddings = [] then Inl NoEmbeddings
                       else
                         (case match_response ARTWORKS ph pal tex_density embeddings of
                            Inl e \<Rightarrow> Inl (Uncaught e)
                          | Inr resp \<Rightarrow> Inr resp))))"

section \<open>A small library model to run the handlers on\<close>

text \<open>
  An image is its size \<open>(width, height)\<close>; bytes are \<open>Some\<close> image or \<open>None\<close> when they do
  not decode. The edge map has one edge pixel in every row, the clustering puts every
  pixel in cluster 0, and every image hashes to 0.
\<close>

definition sample_lib :: "(nat \<times> nat, (nat \<times> nat) option) externals" where
  "sample_lib =
     \<lparr>pil_open = (\<lambda>bytes. bytes),
      pil_convert_rgb = Some,
      pil_exif_transpose = Some,
      pil_size = (\<lambda>img. img),
      pil_resize = (\<lambda>img sz. if fst sz = 0 \<or> snd sz = 0 then None else Some sz),
      imagehash_phash = (\<lambda>img. Some 0),
      np_pixels = (\<lambda>img. replicate (fst img * snd img) (128, 128, 128)),
      np_random_choice = (\<lambda>arr n. take n arr),
      sk_kmeans = (\<lambda>arr k. Some (replicate (length arr) 0, replicate k (128, 128, 128))),
      cv2_canny =
        (\<lambda>img. Some (replicate (snd img) 255 @ replicate (fst img * snd img - snd img) 0)),
      b64decode = (\<lambda>s. None),
      images_dir = ''/srv/backend/images'',
      file_at =
        (\<lambda>path. if path = ''/srv/backend/images/a.jpg'' then Some (Some (8, 8))
                else if path = ''/srv/backend/images/broken.jpg'' then Some None
                else if path = ''/srv/backend/images/thin.jpg'' then Some (Some (1024, 1))
                else None)\<rparr>"

text \<open>The same library with a clustering that returns five clusters of 160, 9840, 9840,
  9840 and 10320 of the 40000 pixels.\<close>

definition uneven_labels :: "nat list" where
  "uneven_labels =
     replicate 160 0 @ replicate 9840 1 @ replicate 9840 2 @ replicate 9840 3
       @ replicate 10320 4"

definition uneven_lib :: "(nat \<times> nat, (nat \<times> nat) option) externals" where
  "uneven_lib =
     sample_lib\<lparr>sk_kmeans :=
       (\<lambda>arr k. Some (uneven_labels,
          [(255, 0, 0), (0, 255, 0), (0, 0, 255), (255, 255, 0), (0, 0, 0)]))\<rparr>"

text \<open>A catalog with one good entry, a missing file, no image name, bytes that do not
  decode, and an image of 1024 by 1 pixels, which decodes but cannot be resized.\<close>

definition sample_catalog :: artworks where
  "sample_catalog =
     [(''a'', JObj [(''title'', JStr ''A''), (''image'', JStr ''a.jpg'')]),
      (''m'', JObj [(''image'', JStr ''missing.jpg'')]),
      (''n'', JObj [(''title'', JStr ''N'')]),
      (''c'', JObj [(''image'', JStr ''broken.jpg'')]),
      (''t'', JObj [(''image'', JStr ''thin.jpg'')])]"

text \<open>Store files to run the handlers on.\<close>

definition tied_store :: store_file where
  "tied_store = Stored (JObj [(''b'', JStr ''0''), (''a'', JStr ''0'')])"

definition tied_store_swapped :: store_file where
  "tied_store_swapped = Stored (JObj [(''a'', JStr ''0''), (''b'', JStr ''0'')])"

definition far_store :: store_file where
  "far_store = Stored (JObj [(''x'', JStr ''4398046511103''), (''y'', JStr ''2199023255551''),
                             (''z'', JStr ''not a number'')])"

section \<open>Properties of rounding\<close>

lemma py_round_near:
  assumes "of_int n - 1 / 2 < x" "x < of_int n + 1 / 2"
  shows "py_round x = n"
proof (cases "of_int n \<le> x")
  case True
  then have f: "\<lfloor>x\<rfloor> = n" using assms(2) by (intro floor_unique) auto
  show ?thesis using assms(2) by (simp add: py_round_def f Let_def)
next
  case False
  then have f: "\<lfloor>x\<rfloor> = n - 1" using assms(1) by (intro floor_unique) auto
  show ?thesis using assms(1) False by (simp add: py_round_def f Let_def)
qed

lemma py_round_nonneg: "0 \<le> x \<Longrightarrow> 0 \<le> py_round x"
  by (simp add: py_round_def Let_def)

lemma py_round_of_int: "py_round (of_int n) = n"
  by (rule py_round_near) simp_all

lemma py_round_error: "\<bar>of_int (py_round x) - x\<bar> \<le> 1 / 2"
proof -
  have "of_int \<lfloor>x\<rfloor> \<le> x" "x < of_int \<lfloor>x\<rfloor> + 1" by linarith+
  then show ?thesis by (auto simp: py_round_def Let_def abs_le_iff)
qed

lemma log2_nat_bounds: "0 < n \<Longrightarrow> 2 ^ log2_nat n \<le> n \<and> n < 2 ^ Suc (log2_nat n)"
proof (induction n rule: log2_nat.induct)
  case (1 n)
  show ?case
  proof (cases "n < 2")
    case True
    with "1.prems" have "n = 1" by simp
    then show ?thesis by (simp add: log2_nat.simps)
  next
    case False
    then have "0 < n div 2" by simp
    from "1.IH" [OF False this]
    have "2 ^ log2_nat (n div 2) \<le> n div 2" "n div 2 < 2 ^ Suc (log2_nat (n div 2))"
      by simp_all
    moreover have "log2_nat n = Suc (log2_nat (n div 2))"
      using False by (simp add: log2_nat.simps [of n])
    ultimately show ?thesis by simp linarith
  qed
qed

lemma powi_neg_nat: "(2 :: rat) powi (- int n) = 1 / 2 ^ n"
  by (simp only: power_int_minus power_int_of_nat inverse_eq_divide)

lemma float_exponent_bounds:
  assumes "0 < x"
  shows "2 powi float_exponent x \<le> x" and "x < 2 powi (float_exponent x + 1)"
proof -
  have "2 powi float_exponent x \<le> x \<and> x < 2 powi (float_exponent x + 1)"
  proof (cases "1 \<le> x")
    case True
    let ?n = "nat \<lfloor>x\<rfloor>"
    let ?L = "log2_nat ?n"
    have fl: "1 \<le> \<lfloor>x\<rfloor>" using True by simp
    then have n: "0 < ?n" by simp
    from log2_nat_bounds [OF n] have b: "2 ^ ?L \<le> ?n" "?n < 2 ^ Suc ?L" by simp_all
    have e: "float_exponent x = int ?L" using True by (simp add: float_exponent_def)
    have "rat_of_nat (2 ^ ?L) \<le> rat_of_nat ?n" using b(1) by (simp only: of_nat_le_iff)
    then have l1: "2 ^ ?L \<le> rat_of_nat ?n" by simp
    have neq: "rat_of_nat ?n = of_int \<lfloor>x\<rfloor>" using fl by simp
    have fx: "of_int \<lfloor>x\<rfloor> \<le> x" by (rule of_int_floor_le)
    have lo: "2 ^ ?L \<le> x" using l1 neq fx by linarith
    have "Suc ?n \<le> 2 ^ Suc ?L" using b(2) by simp
    then have "rat_of_nat (Suc ?n) \<le> rat_of_nat (2 ^ Suc ?L)" by (simp only: of_nat_le_iff)
    then have h1: "rat_of_nat ?n + 1 \<le> 2 ^ Suc ?L" by simp
    have fx2: "x < of_int \<lfloor>x\<rfloor> + 1" by linarith
    have hi: "x < 2 ^ Suc ?L" using h1 neq fx2 by linarith
    have "2 powi (int ?L + 1) = (2 :: rat) ^ Suc ?L"
      by (simp add: power_int_add)
    with lo hi e show ?thesis by simp
  next
    case False
    let ?y = "1 / x"
    let ?n = "nat \<lceil>?y\<rceil>"
    let ?L = "log2_nat (?n - 1)"
    have x1: "x < 1" using False by simp
    have y1: "1 < ?y" using assms x1 by simp
    then have c: "2 \<le> \<lceil>?y\<rceil>" by linarith
    then have n: "0 < ?n - 1" by simp
    from log2_nat_bounds [OF n] have b: "2 ^ ?L \<le> ?n - 1" "?n - 1 < 2 ^ Suc ?L" by simp_all
    have e: "float_exponent x = - int (Suc ?L)" using False by (simp add: float_exponent_def)
    have "?n \<le> 2 ^ Suc ?L" using b(2) by simp
    then have "rat_of_nat ?n \<le> rat_of_nat (2 ^ Suc ?L)" by (simp only: of_nat_le_iff)
    then have nle: "rat_of_nat ?n \<le> 2 ^ Suc ?L" by simp
    have neq: "rat_of_nat ?n = of_int \<lceil>?y\<rceil>" using c by simp
    have yc: "?y \<le> of_int \<lceil>?y\<rceil>" by (rule le_of_int_ceiling)
    have yle: "?y \<le> 2 ^ Suc ?L" using nle neq yc by linarith
    have "rat_of_nat (2 ^ ?L) \<le> rat_of_nat (?n - 1)" using b(1) by (simp only: of_nat_le_iff)
    then have lle: "2 ^ ?L \<le> rat_of_nat (?n - 1)" by simp
    have "1 \<le> ?n" using c by arith
    then have "rat_of_nat (?n - 1) = rat_of_nat ?n - 1" by (simp only: of_nat_diff of_nat_1)
    then have n1: "rat_of_nat (?n - 1) = of_int \<lceil>?y\<rceil> - 1" by (simp only: neq)
    have yc2: "of_int \<lceil>?y\<rceil> - 1 < ?y" by linarith
    have ygt: "2 ^ ?L < ?y" using lle n1 yc2 by linarith
    have lo: "1 / 2 ^ Suc ?L \<le> x"
    proof -
      have "1 \<le> x * 2 ^ Suc ?L" using yle assms by (simp add: field_simps)
      then show ?thesis by (simp add: field_simps)
    qed
    have hi: "x < 1 / 2 ^ ?L"
    proof -
      have "x * 2 ^ ?L < 1" using ygt assms by (simp add: field_simps)
      then show ?thesis by (simp add: field_simps)
    qed
    have p1: "2 powi (- int (Suc ?L)) = 1 / (2 :: rat) ^ Suc ?L"
      by (rule powi_neg_nat)
    have "- int (Suc ?L) + 1 = - int ?L" by simp
    then have p2: "2 powi (- int (Suc ?L) + 1) = 1 / (2 :: rat) ^ ?L"
      by (simp only: powi_neg_nat)
    show ?thesis unfolding e p1 p2 using lo hi by simp
  qed
  then show "2 powi float_exponent x \<le> x" and "x < 2 powi (float_exponent x + 1)"
    by simp_all
qed

lemma float_exponent_unique:
  assumes "0 < x" "2 powi e \<le> x" "x < 2 powi (e + 1)"
  shows "float_exponent x = e"
proof (rule ccontr)
  let ?f = "float_exponent x"
  assume ne: "?f \<noteq> e"
  note b = float_exponent_bounds [OF assms(1)]
  show False
  proof (cases "?f < e")
    case True
    then have "(2 :: rat) powi (?f + 1) \<le> 2 powi e"
      by (intro power_int_increasing) auto
    with b(2) assms(2) show False by linarith
  next
    case False
    with ne have "e + 1 \<le> ?f" by simp
    then have "(2 :: rat) powi (e + 1) \<le> 2 powi ?f"
      by (intro power_int_increasing) auto
    with b(1) assms(3) show False by linarith
  qed
qed

lemma fl64_0: "fl64 0 = 0"
  by (simp add: fl64_def)

lemma fl64_nonneg: "0 \<le> x \<Longrightarrow> 0 \<le> fl64 x"
  by (auto simp: fl64_def Let_def sgn_if py_round_nonneg intro!: mult_nonneg_nonneg)

lemma fl64_error: "\<bar>fl64 x - x\<bar> \<le> \<bar>x\<bar> / 2 ^ 53"
proof (cases "x = 0")
  case True
  then show ?thesis by (simp add: fl64_def)
next
  case False
  let ?e = "float_exponent \<bar>x\<bar>"
  let ?u = "(2 :: rat) powi (?e - 52)"
  let ?m = "py_round (\<bar>x\<bar> / ?u)"
  have pos: "0 < \<bar>x\<bar>" using False by simp
  have u: "0 < ?u" by simp
  have fl: "fl64 x = sgn x * of_int ?m * ?u"
    using False by (simp add: fl64_def Let_def)
  have x: "x = sgn x * (\<bar>x\<bar> / ?u) * ?u"
    using u by (simp add: sgn_if)
  have "fl64 x - x = sgn x * (of_int ?m - \<bar>x\<bar> / ?u) * ?u"
    by (subst (2) x) (simp add: fl algebra_simps)
  then have "\<bar>fl64 x - x\<bar> = \<bar>of_int ?m - \<bar>x\<bar> / ?u\<bar> * ?u"
    using False u by (simp add: abs_mult abs_sgn_eq)
  also have "\<dots> \<le> 1 / 2 * ?u"
    using py_round_error [of "\<bar>x\<bar> / ?u"] u by (intro mult_right_mono) auto
  also have "1 / 2 * ?u = 2 powi ?e / 2 ^ 53"
  proof -
    have "(2 :: rat) powi (?e - 52) = 2 powi ?e / 2 powi 52"
      by (rule power_int_diff) simp
    then show ?thesis by simp
  qed
  also have "\<dots> \<le> \<bar>x\<bar> / 2 ^ 53"
    using float_exponent_bounds(1) [OF pos] by (simp add: divide_right_mono)
  finally show ?thesis .
qed

lemma fl64_dyadic:
  assumes x: "x = of_int m * 2 powi k" and m: "\<bar>m\<bar> < 2 ^ 53"
  shows "fl64 x = x"
proof (cases "x = 0")
  case True
  then show ?thesis by (simp add: fl64_def)
next
  case False
  define e where "e = float_exponent \<bar>x\<bar>"
  define u where "u = (2 :: rat) powi (e - 52)"
  have pos: "0 < \<bar>x\<bar>" using False by simp
  have b: "2 powi e \<le> \<bar>x\<bar>"
    unfolding e_def by (rule float_exponent_bounds(1) [OF pos])
  have ax: "\<bar>x\<bar> = of_int \<bar>m\<bar> * 2 powi k"
    by (simp add: x abs_mult)
  have ge: "e - 52 \<le> k"
  proof (rule ccontr)
    assume "\<not> e - 52 \<le> k"
    then have "k + 53 \<le> e" by simp
    then have p1: "(2 :: rat) powi (k + 53) \<le> 2 powi e"
      by (intro power_int_increasing) auto
    have p2: "(2 :: rat) powi (k + 53) = 2 powi k * 2 ^ 53"
      by (subst power_int_add) simp_all
    have "rat_of_int \<bar>m\<bar> < rat_of_int (2 ^ 53)"
      using m by (simp only: of_int_less_iff)
    then have p3: "rat_of_int \<bar>m\<bar> < 2 ^ 53" by simp
    have "of_int \<bar>m\<bar> * (2 :: rat) powi k < 2 ^ 53 * 2 powi k"
      using p3 by (intro mult_strict_right_mono) simp_all
    then have "\<bar>x\<bar> < 2 powi k * 2 ^ 53" by (simp only: ax mult.commute)
    with p1 p2 b show False by linarith
  qed
  then have "0 \<le> k - (e - 52)" by simp
  then obtain j where "k - (e - 52) = int j" by (rule nonneg_int_cases)
  then have j: "k = e - 52 + int j" by simp
  have pk: "(2 :: rat) powi k = u * 2 ^ j"
    unfolding u_def by (subst j, subst power_int_add) simp_all
  have u0: "u \<noteq> 0" by (simp add: u_def)
  have "\<bar>x\<bar> / u = of_int \<bar>m\<bar> * (u * 2 ^ j) / u" by (simp only: ax pk)
  also have "\<dots> = of_int \<bar>m\<bar> * 2 ^ j" using u0 by simp
  also have "\<dots> = of_int (\<bar>m\<bar> * 2 ^ j)" by simp
  finally have q: "\<bar>x\<bar> / u = of_int (\<bar>m\<bar> * 2 ^ j)" .
  have "fl64 x = sgn x * of_int (py_round (\<bar>x\<bar> / u)) * u"
    using False by (simp add: fl64_def Let_def u_def e_def)
  also have "py_round (\<bar>x\<bar> / u) = \<bar>m\<bar> * 2 ^ j"
    unfolding q by (rule py_round_of_int)
  also have "sgn x * of_int (\<bar>m\<bar> * 2 ^ j) * u = sgn x * (\<bar>x\<bar> / u) * u"
    by (simp only: q)
  also have "\<dots> = x" using u0 by (simp add: sgn_if)
  finally show ?thesis .
qed

lemma fl64_of_int: "\<bar>m\<bar> < 2 ^ 53 \<Longrightarrow> fl64 (of_int m) = of_int m"
  using fl64_dyadic [of "of_int m" m 0] by simp

lemma fl64_half: "fl64 (1 / 2) = 1 / 2"
  using fl64_dyadic [of "1 / 2" 1 "-1"] by simp

lemma percent_near:
  assumes "0 \<le> s" "s \<le> 1"
    and "of_int n - 1 / 2 + 1 / 1000 \<le> 100 * s" "100 * s \<le> of_int n + 1 / 2 - 1 / 1000"
  shows "py_round (fl64 (100 * fl64 s)) = n"
proof -
  let ?y = "100 * fl64 s"
  have "\<bar>s\<bar> / 2 ^ 53 \<le> 1 / 2 ^ 53"
    using assms(1,2) by (intro divide_right_mono) simp_all
  with fl64_error [of s] have e1: "\<bar>fl64 s - s\<bar> \<le> 1 / 2 ^ 53" by linarith
  have eq: "?y - 100 * s = 100 * (fl64 s - s)" by (simp add: algebra_simps)
  have "\<bar>?y - 100 * s\<bar> = \<bar>100 * (fl64 s - s)\<bar>" by (simp only: eq)
  also have "\<dots> = 100 * \<bar>fl64 s - s\<bar>" by (simp only: abs_mult abs_numeral)
  finally have "\<bar>?y - 100 * s\<bar> = 100 * \<bar>fl64 s - s\<bar>" .
  with e1 have y: "\<bar>?y - 100 * s\<bar> \<le> 100 / 2 ^ 53" by simp
  have small: "(100 :: rat) / 2 ^ 53 \<le> 1" by simp
  have "\<bar>?y\<bar> \<le> 101"
    using y small assms(1,2) by linarith
  then have "\<bar>?y\<bar> / 2 ^ 53 \<le> 101 / 2 ^ 53"
    by (intro divide_right_mono) simp_all
  with fl64_error [of ?y] have e2: "\<bar>fl64 ?y - ?y\<bar> \<le> 101 / 2 ^ 53" by linarith
  have tiny: "(100 :: rat) / 2 ^ 53 + 101 / 2 ^ 53 < 1 / 1000" by simp
  have close: "\<bar>fl64 ?y - 100 * s\<bar> < 1 / 1000"
    using y e2 tiny by linarith
  show ?thesis
  proof (rule py_round_near)
    show "of_int n - 1 / 2 < fl64 ?y" using close assms(3) by linarith
    show "fl64 ?y < of_int n + 1 / 2" using close assms(4) by linarith
  qed
qed

lemma fl64_numeral: "(numeral n :: int) < 2 ^ 53 \<Longrightarrow> fl64 (numeral n) = numeral n"
  using fl64_of_int [of "numeral n"] by simp

lemma fl64_1: "fl64 1 = 1"
  using fl64_of_int [of 1] by simp

lemma fl64_inverse_power2: "fl64 (1 / 2 ^ n) = 1 / 2 ^ n"
  using fl64_dyadic [of "1 / 2 ^ n" 1 "- int n"] by (simp add: powi_neg_nat)

lemma fl64_less:
  assumes "0 < a" "a * (1 + 1 / 2 ^ 53) < b * (1 - 1 / 2 ^ 53)"
  shows "fl64 a < fl64 b"
proof -
  have b: "0 < b"
  proof (rule ccontr)
    assume "\<not> 0 < b"
    then have "b * (1 - 1 / 2 ^ 53) \<le> 0" by (simp add: mult_le_0_iff)
    moreover have "0 < a * (1 + 1 / 2 ^ 53)" using assms(1) by simp
    ultimately show False using assms(2) by linarith
  qed
  have ea: "\<bar>fl64 a - a\<bar> \<le> \<bar>a\<bar> / 2 ^ 53" by (rule fl64_error)
  have eb: "\<bar>fl64 b - b\<bar> \<le> \<bar>b\<bar> / 2 ^ 53" by (rule fl64_error)
  have aa: "\<bar>a\<bar> = a" using assms(1) by simp
  have bb: "\<bar>b\<bar> = b" using b by simp
  have "fl64 a \<le> a + a / 2 ^ 53"
    using ea unfolding aa by linarith
  moreover have "b - b / 2 ^ 53 \<le> fl64 b"
    using eb unfolding bb by linarith
  moreover have "a + a / 2 ^ 53 < b - b / 2 ^ 53"
    using assms(2) by (simp add: algebra_simps)
  ultimately show ?thesis by linarith
qed

section \<open>Properties of the Hamming distance\<close>

lemma popcount_le: "n < 2 ^ k \<Longrightarrow> popcount n \<le> k"
proof (induction k arbitrary: n)
  case 0
  then show ?case by (simp add: popcount.simps)
next
  case (Suc k)
  show ?case
  proof (cases "n = 0")
    case True
    then show ?thesis by (simp add: popcount.simps)
  next
    case False
    from Suc.prems have "n div 2 < 2 ^ k" by simp
    then have "popcount (n div 2) \<le> k" by (rule Suc.IH)
    moreover have "popcount n = n mod 2 + popcount (n div 2)"
      using False by (simp add: popcount.simps)
    ultimately show ?thesis by simp
  qed
qed

lemma hamming_self: "hamming_distance_int a a = 0"
  by (simp add: hamming_distance_int_def bit_count_def popcount.simps)

lemma hamming_sym: "hamming_distance_int a b = hamming_distance_int b a"
  by (simp add: hamming_distance_int_def xor.commute)

lemma hamming_nonneg: "0 \<le> hamming_distance_int a b"
  by (simp add: hamming_distance_int_def bit_count_def)

lemma hamming_le_64:
  assumes "0 \<le> a" "a < 2 ^ 64" "0 \<le> b" "b < 2 ^ 64"
  shows "hamming_distance_int a b \<le> 64"
proof -
  have nn: "0 \<le> a XOR b" using assms by simp
  have "a XOR b < 2 ^ 64" using assms by (intro XOR_upper) auto
  then have "nat \<bar>a XOR b\<bar> < 2 ^ 64" using nn by (simp add: nat_less_iff)
  then have "popcount (nat \<bar>a XOR b\<bar>) \<le> 64" by (rule popcount_le)
  then show ?thesis by (simp add: hamming_distance_int_def bit_count_def)
qed

section \<open>Properties of the search loop\<close>

lemma distances_Nil: "distances ph [] = []"
  by (simp add: distances_def)

lemma distances_Cons:
  "distances ph ((j, e) # embs) = (j, hamming_distance_int ph e) # distances ph embs"
  by (simp add: distances_def)

lemma scan_Cons_less:
  "hamming_distance_int ph e < b \<Longrightarrow>
   scan_embeddings ph ((j, e) # embs) (Some i, Some b, acc) =
   scan_embeddings ph embs (Some j, Some (hamming_distance_int ph e), acc @ [(j, hamming_distance_int ph e)])"
  by (simp add: Let_def)

lemma scan_Cons_keep:
  "\<not> hamming_distance_int ph e < b \<Longrightarrow>
   scan_embeddings ph ((j, e) # embs) (Some i, Some b, acc) =
   scan_embeddings ph embs (Some i, Some b, acc @ [(j, hamming_distance_int ph e)])"
  by (simp add: Let_def)

lemma scan_Cons_none:
  "scan_embeddings ph ((j, e) # embs) (None, None, acc) =
   scan_embeddings ph embs (Some j, Some (hamming_distance_int ph e), acc @ [(j, hamming_distance_int ph e)])"
  by (simp add: Let_def)

lemma scan_shape:
  "\<exists>i' b'. scan_embeddings ph embs (Some i, Some b, acc) = (Some i', Some b', acc @ distances ph embs)"
proof (induction embs arbitrary: i b acc)
  case Nil
  show ?case by (simp add: distances_Nil)
next
  case (Cons x embs)
  obtain j e where x: "x = (j, e)" by (cases x)
  show ?case
  proof (cases "hamming_distance_int ph e < b")
    case True
    then show ?thesis
      using Cons.IH [of j "hamming_distance_int ph e" "acc @ [(j, hamming_distance_int ph e)]"]
      unfolding x by (simp only: scan_Cons_less [OF True] distances_Cons append_assoc append_Cons append_Nil)
  next
    case False
    then show ?thesis
      using Cons.IH [of i b "acc @ [(j, hamming_distance_int ph e)]"]
      unfolding x by (simp only: scan_Cons_keep [OF False] distances_Cons append_assoc append_Cons append_Nil)
  qed
qed

lemma scan_min:
  "scan_embeddings ph embs (Some i, Some b, acc) = (Some i', Some b', al) \<Longrightarrow>
   b' = Min (insert b (snd ` set (distances ph embs)))"
proof (induction embs arbitrary: i b acc)
  case Nil
  then show ?case by (simp add: distances_Nil)
next
  case (Cons x embs)
  obtain j e where x: "x = (j, e)" by (cases x)
  let ?d = "hamming_distance_int ph e"
  let ?R = "snd ` set (distances ph embs)"
  have fin: "finite ?R" by simp
  have set_eq: "snd ` set (distances ph (x # embs)) = insert ?d ?R"
    by (simp add: x distances_Cons)
  show ?case
  proof (cases "?d < b")
    case True
    with Cons.prems have "scan_embeddings ph embs (Some j, Some ?d, acc @ [(j, ?d)]) = (Some i', Some b', al)"
      by (simp only: x scan_Cons_less [OF True])
    then have b': "b' = Min (insert ?d ?R)" by (rule Cons.IH)
    have le: "Min (insert ?d ?R) \<le> ?d" using fin by simp
    have "Min (insert b (insert ?d ?R)) = min b (Min (insert ?d ?R))"
      using fin by simp
    also have "\<dots> = Min (insert ?d ?R)"
      by (rule min.absorb2 [OF order_trans [OF le less_imp_le [OF True]]])
    finally show ?thesis using b' by (simp only: set_eq)
  next
    case False
    with Cons.prems have "scan_embeddings ph embs (Some i, Some b, acc @ [(j, ?d)]) = (Some i', Some b', al)"
      by (simp only: x scan_Cons_keep [OF False])
    then have b': "b' = Min (insert b ?R)" by (rule Cons.IH)
    have le: "Min (insert b ?R) \<le> b" using fin by simp
    have ge: "b \<le> ?d" using False by simp
    have "Min (insert b (insert ?d ?R)) = Min (insert ?d (insert b ?R))"
      by (simp only: insert_commute)
    also have "\<dots> = min ?d (Min (insert b ?R))" using fin by simp
    also have "\<dots> = Min (insert b ?R)"
      by (rule min.absorb2 [OF order_trans [OF le ge]])
    finally show ?thesis using b' by (simp only: set_eq)
  qed
qed

lemma scan_keep:
  "scan_embeddings ph embs (Some i, Some b, acc) = (Some i', Some b', al) \<Longrightarrow>
   \<not> b' < b \<Longrightarrow> i' = i \<and> b' = b"
proof (induction embs arbitrary: i b acc)
  case Nil
  then show ?case by simp
next
  case (Cons x embs)
  obtain j e where x: "x = (j, e)" by (cases x)
  let ?d = "hamming_distance_int ph e"
  show ?case
  proof (cases "?d < b")
    case True
    with Cons.prems(1) have st: "scan_embeddings ph embs (Some j, Some ?d, acc @ [(j, ?d)]) = (Some i', Some b', al)"
      by (simp only: x scan_Cons_less [OF True])
    from scan_min [OF st] have "b' \<le> ?d" by simp
    with True Cons.prems(2) show ?thesis by simp
  next
    case False
    with Cons.prems(1) have st: "scan_embeddings ph embs (Some i, Some b, acc @ [(j, ?d)]) = (Some i', Some b', al)"
      by (simp only: x scan_Cons_keep [OF False])
    from Cons.IH [OF st Cons.prems(2)] show ?thesis .
  qed
qed

lemma scan_first:
  "scan_embeddings ph embs (Some i, Some b, acc) = (Some i', Some b', al) \<Longrightarrow> b' < b \<Longrightarrow>
   \<exists>pre post. distances ph embs = pre @ (i', b') # post \<and> (\<forall>p \<in> set pre. b' < snd p)"
proof (induction embs arbitrary: i b acc)
  case Nil
  then show ?case by simp
next
  case (Cons x embs)
  obtain j e where x: "x = (j, e)" by (cases x)
  let ?d = "hamming_distance_int ph e"
  have dc: "distances ph (x # embs) = (j, ?d) # distances ph embs"
    by (simp only: x distances_Cons)
  show ?case
  proof (cases "?d < b")
    case True
    with Cons.prems(1) have st: "scan_embeddings ph embs (Some j, Some ?d, acc @ [(j, ?d)]) = (Some i', Some b', al)"
      by (simp only: x scan_Cons_less [OF True])
    show ?thesis
    proof (cases "b' < ?d")
      case lt: True
      from Cons.IH [OF st lt] obtain pre post where
        p: "distances ph embs = pre @ (i', b') # post" "\<forall>p \<in> set pre. b' < snd p"
        by blast
      have "distances ph (x # embs) = ((j, ?d) # pre) @ (i', b') # post"
        using p(1) dc by simp
      moreover have "\<forall>p \<in> set ((j, ?d) # pre). b' < snd p"
        using p(2) lt by simp
      ultimately show ?thesis by blast
    next
      case nlt: False
      from scan_keep [OF st nlt] have "i' = j" "b' = ?d" by simp_all
      then have "distances ph (x # embs) = [] @ (i', b') # distances ph embs"
        using dc by simp
      moreover have "\<forall>p \<in> set ([] :: (string \<times> int) list). b' < snd p" by simp
      ultimately show ?thesis by blast
    qed
  next
    case False
    with Cons.prems(1) have st: "scan_embeddings ph embs (Some i, Some b, acc @ [(j, ?d)]) = (Some i', Some b', al)"
      by (simp only: x scan_Cons_keep [OF False])
    from Cons.IH [OF st Cons.prems(2)] obtain pre post where
      p: "distances ph embs = pre @ (i', b') # post" "\<forall>p \<in> set pre. b' < snd p"
      by blast
    have "b' < ?d" using False Cons.prems(2) by simp
    have "distances ph (x # embs) = ((j, ?d) # pre) @ (i', b') # post"
      using p(1) dc by simp
    moreover have "\<forall>p \<in> set ((j, ?d) # pre). b' < snd p"
      using p(2) \<open>b' < ?d\<close> by simp
    ultimately show ?thesis by blast
  qed
qed

lemma scan_nonempty:
  assumes "embs \<noteq> []"
  shows "\<exists>i d pre post.
           scan_embeddings ph embs (None, None, []) = (Some i, Some d, distances ph embs)
         \<and> d = Min (snd ` set (distances ph embs))
         \<and> distances ph embs = pre @ (i, d) # post
         \<and> (\<forall>p \<in> set pre. d < snd p)"
proof -
  from assms obtain x rest where "embs = x # rest" by (cases embs) auto
  then obtain j e where embs: "embs = (j, e) # rest" by (cases x) auto
  let ?d = "hamming_distance_int ph e"
  have dc: "distances ph embs = (j, ?d) # distances ph rest"
    by (simp only: embs distances_Cons)
  have step: "scan_embeddings ph embs (None, None, []) =
              scan_embeddings ph rest (Some j, Some ?d, [(j, ?d)])"
    by (simp only: embs scan_Cons_none append_Nil)
  from scan_shape [of ph rest j ?d "[(j, ?d)]"] obtain i' b' where
    st: "scan_embeddings ph rest (Some j, Some ?d, [(j, ?d)]) = (Some i', Some b', [(j, ?d)] @ distances ph rest)"
    by blast
  have whole: "scan_embeddings ph embs (None, None, []) = (Some i', Some b', distances ph embs)"
    using step st dc by simp
  have m: "b' = Min (snd ` set (distances ph embs))"
    using scan_min [OF st] dc by simp
  have "\<exists>pre post. distances ph embs = pre @ (i', b') # post \<and> (\<forall>p \<in> set pre. b' < snd p)"
  proof (cases "b' < ?d")
    case True
    from scan_first [OF st True] obtain pre post where
      p: "distances ph rest = pre @ (i', b') # post" "\<forall>p \<in> set pre. b' < snd p"
      by blast
    have "distances ph embs = ((j, ?d) # pre) @ (i', b') # post"
      using p(1) dc by simp
    moreover have "\<forall>p \<in> set ((j, ?d) # pre). b' < snd p"
      using p(2) True by simp
    ultimately show ?thesis by blast
  next
    case False
    from scan_keep [OF st False] have "i' = j" "b' = ?d" by simp_all
    then have "distances ph embs = [] @ (i', b') # distances ph rest"
      using dc by simp
    moreover have "\<forall>p \<in> set ([] :: (string \<times> int) list). b' < snd p" by simp
    ultimately show ?thesis by blast
  qed
  with whole m show ?thesis by blast
qed

section \<open>Claims about distance and confidence\<close>

lemma compute_phash_range:
  "compute_phash_from_image ext img = Inr ph \<Longrightarrow> 0 \<le> ph \<and> ph < 2 ^ 64"
proof -
  assume a: "compute_phash_from_image ext img = Inr ph"
  then obtain hsh :: "64 word" where "ph = uint hsh"
    by (auto simp: compute_phash_from_image_def split: sum.splits option.splits)
  moreover have "uint hsh < 2 ^ 64" using uint_bounded [of hsh] by simp
  ultimately show ?thesis by simp
qed

text \<open>
  Claim C8, as the program has it. The distance of a fingerprint to itself is 0, the
  distance is symmetric and never negative, for all Python integers. It is at most 64
  when both fingerprints lie in \<open>[0, 2\<^sup>6\<^sup>4)\<close>, which every fingerprint computed by
  \<^verbatim>\<open>compute_phash_from_image\<close> does (the query's, and every one \<^verbatim>\<open>precompute\<close> stores).
  \<^verbatim>\<open>load_embeddings\<close> checks no range, so the bound is not promised for a stored value
  outside it.
\<close>

theorem hamming_distance_properties:
  "hamming_distance_int a a = 0
   \<and> hamming_distance_int a b = hamming_distance_int b a
   \<and> 0 \<le> hamming_distance_int a b
   \<and> (0 \<le> a \<and> a < 2 ^ 64 \<and> 0 \<le> b \<and> b < 2 ^ 64 \<longrightarrow> hamming_distance_int a b \<le> 64)
   \<and> (compute_phash_from_image ext img = Inr a \<and> compute_phash_from_image ext img' = Inr b
        \<longrightarrow> hamming_distance_int a b \<le> 64)"
proof (intro conjI impI)
  show "hamming_distance_int a a = 0" by (rule hamming_self)
  show "hamming_distance_int a b = hamming_distance_int b a" by (rule hamming_sym)
  show "0 \<le> hamming_distance_int a b" by (rule hamming_nonneg)
next
  assume "0 \<le> a \<and> a < 2 ^ 64 \<and> 0 \<le> b \<and> b < 2 ^ 64"
  then show "hamming_distance_int a b \<le> 64" by (simp add: hamming_le_64)
next
  assume h: "compute_phash_from_image ext img = Inr a \<and> compute_phash_from_image ext img' = Inr b"
  then have "0 \<le> a \<and> a < 2 ^ 64" "0 \<le> b \<and> b < 2 ^ 64"
    by (auto dest: compute_phash_range)
  then show "hamming_distance_int a b \<le> 64" by (simp add: hamming_le_64)
qed

text \<open>Runs of the library model.\<close>

lemma sample_decode:
  "decode_upload_to_image sample_lib (MultipartFile (Some img)) = Inr img"
  by (simp add: decode_upload_to_image_def sample_lib_def)

lemma sample_preprocess_small:
  "preprocess_image_for_matching sample_lib (8, 8) 512 = Inr (8, 8)"
  by (simp add: preprocess_image_for_matching_def sample_lib_def)

lemma sample_preprocess_large:
  "preprocess_image_for_matching sample_lib (1024, 2) 512 = Inr (512, 1)"
  by (simp add: preprocess_image_for_matching_def sample_lib_def Let_def fl64_half
      fl64_numeral fl64_1)

lemma sample_phash_small: "compute_phash_from_image sample_lib (8, 8) = Inr 0"
  by (simp add: compute_phash_from_image_def sample_preprocess_small) (simp add: sample_lib_def)

lemma sample_phash_large: "compute_phash_from_image sample_lib (1024, 2) = Inr 0"
  by (simp add: compute_phash_from_image_def sample_preprocess_large) (simp add: sample_lib_def)

text \<open>Claim C8 at concrete fingerprints: 5 and 3, and the hashes of two sample images.\<close>

theorem hamming_distance_properties_witness:
  "(0 \<le> (5::int) \<and> (5::int) < 2 ^ 64 \<and> 0 \<le> (3::int) \<and> (3::int) < 2 ^ 64)
   \<and> compute_phash_from_image sample_lib (8, 8) = Inr 0
   \<and> compute_phash_from_image sample_lib (1024, 2) = Inr 0
   \<and> hamming_distance_int 5 5 = 0
   \<and> hamming_distance_int 5 3 = hamming_distance_int 3 5
   \<and> hamming_distance_int 5 3 \<le> 64
   \<and> hamming_distance_int 0 0 \<le> 64"
  using hamming_distance_properties [of 5 3 sample_lib "(8, 8)" "(8, 8)"]
    hamming_distance_properties [of 0 0 sample_lib "(8, 8)" "(1024, 2)"]
    sample_phash_small sample_phash_large
  by simp

text \<open>
  Claim C8 as stated fails for a fingerprint loaded from the store: the stored decimal
  string of \<open>2\<^sup>6\<^sup>5 - 1\<close> is loaded as it is, and its distance to the query fingerprint 0
  is 65.
\<close>

theorem stored_fingerprint_beyond_64_bits:
  "load_embeddings (Stored (JObj [(''a'', JStr ''36893488147419103231'')]))
     = Inr [(''a'', 36893488147419103231)]
   \<and> compute_phash_from_image sample_lib (8, 8) = Inr 0
   \<and> hamming_distance_int 0 36893488147419103231 = 65"
  by (simp add: sample_phash_small load_embeddings_def int_of_str_def py_strip_def is_space_def
      is_digit_def digit_val_def int_max_str_digits_def hamming_distance_int_def bit_count_def
      popcount.simps)

lemma confidence_clamp: "confidence d = clamp (1 - of_int d / 64) 0 1"
  by (simp add: confidence_def clamp_def max_def min_def)

text \<open>
  Claim C4: the confidence is \<open>clamp(1 - distance/64, 0, 1)\<close>; it does not increase when
  the distance grows; it is 1 at distance 0 and 0 at distance 64.
\<close>

theorem confidence_properties:
  "confidence d = clamp (1 - of_int d / 64) 0 1
   \<and> (d \<le> d' \<longrightarrow> confidence d' \<le> confidence d)
   \<and> confidence 0 = 1
   \<and> confidence 64 = 0"
proof (intro conjI impI)
  show "confidence d = clamp (1 - of_int d / 64) 0 1" by (rule confidence_clamp)
  show "confidence 0 = 1" by (simp add: confidence_def)
  show "confidence 64 = 0" by (simp add: confidence_def)
next
  assume "d \<le> d'"
  then have "(1 :: rat) - of_int d' / 64 \<le> 1 - of_int d / 64"
    by (simp add: divide_right_mono)
  then show "confidence d' \<le> confidence d"
    unfolding confidence_def by (intro max.mono min.mono order_refl)
qed

text \<open>Claim C4 at the distances 10 and 50.\<close>

theorem confidence_properties_witness:
  "(10 :: int) \<le> 50 \<and> confidence 50 \<le> confidence 10
   \<and> confidence 10 = 27 / 32 \<and> confidence 50 = 7 / 32"
  using confidence_properties [of 10 50] by (simp add: confidence_def)

section \<open>Runs of the request handler\<close>

lemma match_response_run:
  assumes "scan_embeddings ph embs (None, None, []) = (Some i, Some d, al)"
  shows "match_response A ph pal tex embs =
    Inr \<lparr>matched = (d \<le> MAX_DISTANCE),
         match_id = (if d \<le> MAX_DISTANCE then Some i else None),
         match_confidence = (if d \<le> MAX_DISTANCE then Some (py_round_to (confidence d) 4) else None),
         hamming_distance = d,
         palette = pal,
         texture_density = py_round_to tex 6,
         debug = \<lparr>best_match = Some i, best_distance = d, threshold = MAX_DISTANCE,
                   top_3 = take 3 (sort_key snd al)\<rparr>,
         metadata = (if d \<le> MAX_DISTANCE then artwork_get A i else None),
         message = (case (if d \<le> MAX_DISTANCE then artwork_get A i else None) of
                      None \<Rightarrow> Some (no_match_message d) | Some _ \<Rightarrow> None)\<rparr>"
  by (simp add: match_response_def assms Let_def)

lemma analyze_run_record:
  assumes dec: "decode_upload_to_image ext req = Inr img"
    and fp: "compute_phash_from_image ext img = Inr ph"
    and ld: "load_embeddings file = Inr embs"
    and ne: "embs \<noteq> []"
  shows "\<exists>i d pre post.
      analyze ext A file req =
        Inr \<lparr>matched = (d \<le> MAX_DISTANCE),
             match_id = (if d \<le> MAX_DISTANCE then Some i else None),
             match_confidence =
               (if d \<le> MAX_DISTANCE then Some (py_round_to (confidence d) 4) else None),
             hamming_distance = d,
             palette = (case kmeans_palette ext img 5 of Inl _ \<Rightarrow> [] | Inr p \<Rightarrow> p),
             texture_density =
               py_round_to (case texture_edge_density ext img of Inl _ \<Rightarrow> 0 | Inr t \<Rightarrow> t) 6,
             debug = \<lparr>best_match = Some i, best_distance = d, threshold = MAX_DISTANCE,
                       top_3 = take 3 (sort_key snd (distances ph embs))\<rparr>,
             metadata = (if d \<le> MAX_DISTANCE then artwork_get A i else None),
             message = (case (if d \<le> MAX_DISTANCE then artwork_get A i else None) of
                          None \<Rightarrow> Some (no_match_message d) | Some _ \<Rightarrow> None)\<rparr>
    \<and> d = Min (snd ` set (distances ph embs))
    \<and> distances ph embs = pre @ (i, d) # post
    \<and> (\<forall>p \<in> set pre. d < snd p)"
proof -
  from scan_nonempty [OF ne, of ph] obtain i d pre post where
    sc: "scan_embeddings ph embs (None, None, []) = (Some i, Some d, distances ph embs)"
    and m: "d = Min (snd ` set (distances ph embs))"
    and sp: "distances ph embs = pre @ (i, d) # post" "\<forall>p \<in> set pre. d < snd p"
    by blast
  have "analyze ext A file req =
      (case match_response A ph (case kmeans_palette ext img 5 of Inl _ \<Rightarrow> [] | Inr p \<Rightarrow> p)
              (case texture_edge_density ext img of Inl _ \<Rightarrow> 0 | Inr t \<Rightarrow> t) embs of
         Inl e \<Rightarrow> Inl (Uncaught e) | Inr resp \<Rightarrow> Inr resp)"
    using ne by (simp add: analyze_def dec fp ld Let_def)
  also note match_response_run [OF sc]
  finally have "analyze ext A file req = Inr \<lparr>matched = (d \<le> MAX_DISTANCE),
             match_id = (if d \<le> MAX_DISTANCE then Some i else None),
             match_confidence =
               (if d \<le> MAX_DISTANCE then Some (py_round_to (confidence d) 4) else None),
             hamming_distance = d,
             palette = (case kmeans_palette ext img 5 of Inl _ \<Rightarrow> [] | Inr p \<Rightarrow> p),
             texture_density =
               py_round_to (case texture_edge_density ext img of Inl _ \<Rightarrow> 0 | Inr t \<Rightarrow> t) 6,
             debug = \<lparr>best_match = Some i, best_distance = d, threshold = MAX_DISTANCE,
                       top_3 = take 3 (sort_key snd (distances ph embs))\<rparr>,
             metadata = (if d \<le> MAX_DISTANCE then artwork_get A i else None),
             message = (case (if d \<le> MAX_DISTANCE then artwork_get A i else None) of
                          None \<Rightarrow> Some (no_match_message d) | Some _ \<Rightarrow> None)\<rparr>"
    by simp
  with m sp show ?thesis by blast
qed

lemma analyze_run:
  assumes dec: "decode_upload_to_image ext req = Inr img"
    and fp: "compute_phash_from_image ext img = Inr ph"
    and ld: "load_embeddings file = Inr embs"
    and ne: "embs \<noteq> []"
  obtains (run) resp i d pre post where
      "analyze ext A file req = Inr resp"
      "matched resp = (d \<le> MAX_DISTANCE)"
      "match_id resp = (if d \<le> MAX_DISTANCE then Some i else None)"
      "match_confidence resp =
        (if d \<le> MAX_DISTANCE then Some (py_round_to (confidence d) 4) else None)"
      "hamming_distance resp = d"
      "palette resp = (case kmeans_palette ext img 5 of Inl _ \<Rightarrow> [] | Inr p \<Rightarrow> p)"
      "texture_density resp =
        py_round_to (case texture_edge_density ext img of Inl _ \<Rightarrow> 0 | Inr t \<Rightarrow> t) 6"
      "best_match (debug resp) = Some i"
      "best_distance (debug resp) = d"
      "threshold (debug resp) = MAX_DISTANCE"
      "top_3 (debug resp) = take 3 (sort_key snd (distances ph embs))"
      "d = Min (snd ` set (distances ph embs))"
      "distances ph embs = pre @ (i, d) # post"
      "\<forall>p \<in> set pre. d < snd p"
proof -
  from analyze_run_record [OF assms, of A] obtain i d pre post where
    rn: "analyze ext A file req =
        Inr \<lparr>matched = (d \<le> MAX_DISTANCE),
             match_id = (if d \<le> MAX_DISTANCE then Some i else None),
             match_confidence =
               (if d \<le> MAX_DISTANCE then Some (py_round_to (confidence d) 4) else None),
             hamming_distance = d,
             palette = (case kmeans_palette ext img 5 of Inl _ \<Rightarrow> [] | Inr p \<Rightarrow> p),
             texture_density =
               py_round_to (case texture_edge_density ext img of Inl _ \<Rightarrow> 0 | Inr t \<Rightarrow> t) 6,
             debug = \<lparr>best_match = Some i, best_distance = d, threshold = MAX_DISTANCE,
                       top_3 = take 3 (sort_key snd (distances ph embs))\<rparr>,
             metadata = (if d \<le> MAX_DISTANCE then artwork_get A i else None),
             message = (case (if d \<le> MAX_DISTANCE then artwork_get A i else None) of
                          None \<Rightarrow> Some (no_match_message d) | Some _ \<Rightarrow> None)\<rparr>"
    and rest: "d = Min (snd ` set (distances ph embs))"
      "distances ph embs = pre @ (i, d) # post" "\<forall>p \<in> set pre. d < snd p"
    by blast
  show thesis
    by (rule that [OF rn _ _ _ _ _ _ _ _ _ _ rest]) simp_all
qed

lemma Min_distances_le_snd:
  "p \<in> set (distances ph embs) \<Longrightarrow> Min (snd ` set (distances ph embs)) \<le> snd p"
  by simp

text \<open>
  Claim C3: for a request whose image decodes and hashes and a non-empty index, the handler
  answers, and \<open>matched\<close> holds exactly when the minimum distance over the index is at
  most the threshold, which is 40.
\<close>

theorem matched_iff_within_threshold:
  assumes "decode_upload_to_image ext req = Inr img"
    and "compute_phash_from_image ext img = Inr ph"
    and "load_embeddings file = Inr embs"
    and "embs \<noteq> []"
  shows "\<exists>resp. analyze ext A file req = Inr resp
     \<and> hamming_distance resp = Min (snd ` set (distances ph embs))
     \<and> (matched resp \<longleftrightarrow> Min (snd ` set (distances ph embs)) \<le> threshold (debug resp))
     \<and> threshold (debug resp) = 40"
  using assms
proof (cases rule: analyze_run [where A = A])
  case (run resp i d pre post)
  have "hamming_distance resp = Min (snd ` set (distances ph embs))"
    using run(5,12) by simp
  moreover have "matched resp \<longleftrightarrow> Min (snd ` set (distances ph embs)) \<le> threshold (debug resp)"
    using run(2,10,12) by simp
  moreover have "threshold (debug resp) = 40"
    using run(10) by (simp add: MAX_DISTANCE_def)
  ultimately show ?thesis using run(1) by blast
qed

lemmas int_of_str_eval =
  int_of_str_def py_strip_def is_space_def is_digit_def digit_val_def int_max_str_digits_def

lemmas hamming_eval = hamming_distance_int_def bit_count_def popcount.simps

lemma load_tied: "load_embeddings tied_store = Inr [(''b'', 0), (''a'', 0)]"
  by (simp add: tied_store_def load_embeddings_def int_of_str_eval)

lemma load_tied_swapped: "load_embeddings tied_store_swapped = Inr [(''a'', 0), (''b'', 0)]"
  by (simp add: tied_store_swapped_def load_embeddings_def int_of_str_eval)

lemma load_far: "load_embeddings far_store = Inr [(''x'', 4398046511103), (''y'', 2199023255551)]"
  by (simp add: far_store_def load_embeddings_def int_of_str_eval)

lemma distances_tied: "distances 0 [(''b'', 0), (''a'', 0)] = [(''b'', 0), (''a'', 0)]"
  by (simp add: distances_def hamming_eval)

lemma distances_far:
  "distances 0 [(''x'', 4398046511103), (''y'', 2199023255551)] = [(''x'', 42), (''y'', 41)]"
  by (simp add: distances_def hamming_eval)

text \<open>Claim C3 run on the sample library: a store whose nearest entry is at distance 41, and
  one whose nearest entry is at distance 0.\<close>

theorem matched_iff_within_threshold_witness:
  "decode_upload_to_image sample_lib (MultipartFile (Some (8, 8))) = Inr (8, 8)
   \<and> compute_phash_from_image sample_lib (8, 8) = Inr 0
   \<and> load_embeddings far_store = Inr [(''x'', 4398046511103), (''y'', 2199023255551)]
   \<and> [(''x'', 4398046511103 :: int), (''y'', 2199023255551)] \<noteq> []
   \<and> (\<exists>resp. analyze sample_lib [] far_store (MultipartFile (Some (8, 8))) = Inr resp
        \<and> hamming_distance resp = 41 \<and> \<not> matched resp \<and> threshold (debug resp) = 40)
   \<and> load_embeddings tied_store = Inr [(''b'', 0), (''a'', 0)]
   \<and> [(''b'', 0 :: int), (''a'', 0)] \<noteq> []
   \<and> (\<exists>resp. analyze sample_lib [] tied_store (MultipartFile (Some (8, 8))) = Inr resp
        \<and> hamming_distance resp = 0 \<and> matched resp \<and> threshold (debug resp) = 40)"
proof -
  have ne: "[(''x'', 4398046511103 :: int), (''y'', 2199023255551)] \<noteq> []" by simp
  have ne': "[(''b'', 0 :: int), (''a'', 0)] \<noteq> []" by simp
  from matched_iff_within_threshold [OF sample_decode sample_phash_small load_far ne, of "[]"]
  have far: "\<exists>resp. analyze sample_lib [] far_store (MultipartFile (Some (8, 8))) = Inr resp
        \<and> hamming_distance resp = 41 \<and> \<not> matched resp \<and> threshold (debug resp) = 40"
    by (auto simp: distances_far)
  from matched_iff_within_threshold [OF sample_decode sample_phash_small load_tied ne', of "[]"]
  have near: "\<exists>resp. analyze sample_lib [] tied_store (MultipartFile (Some (8, 8))) = Inr resp
        \<and> hamming_distance resp = 0 \<and> matched resp \<and> threshold (debug resp) = 40"
    by (auto simp: distances_tied)
  show ?thesis
    by (intro conjI sample_decode sample_phash_small load_far ne far load_tied ne' near)
qed


text \<open>
  Claim C2, as the program has it: the winner is the first entry, in the iteration order
  of the loaded mapping, at minimum distance. Every entry before it is strictly farther,
  every entry after it is at least as far.
\<close>

theorem best_match_is_first_minimum:
  assumes "decode_upload_to_image ext req = Inr img"
    and "compute_phash_from_image ext img = Inr ph"
    and "load_embeddings file = Inr embs"
    and "embs \<noteq> []"
  shows "\<exists>resp i d pre post. analyze ext A file req = Inr resp
     \<and> distances ph embs = pre @ (i, d) # post
     \<and> (\<forall>p \<in> set pre. d < snd p) \<and> (\<forall>p \<in> set post. d \<le> snd p)
     \<and> hamming_distance resp = d
     \<and> best_match (debug resp) = Some i
     \<and> (matched resp \<longrightarrow> match_id resp = Some i)"
  using assms
proof (cases rule: analyze_run [where A = A])
  case (run resp i d pre post)
  have "\<forall>p \<in> set post. d \<le> snd p"
  proof
    fix p assume "p \<in> set post"
    then have "p \<in> set (distances ph embs)" by (subst run(13)) simp
    then show "d \<le> snd p" unfolding run(12) by (rule Min_distances_le_snd)
  qed
  moreover have "matched resp \<longrightarrow> match_id resp = Some i"
    by (simp add: run(2,3))
  ultimately show ?thesis
    using run(1,5,8,13,14) by blast
qed

text \<open>Claim C2 run on the sample library with two entries tied at distance 0: the first
  stored wins.\<close>

theorem best_match_is_first_minimum_witness:
  "decode_upload_to_image sample_lib (MultipartFile (Some (8, 8))) = Inr (8, 8)
   \<and> compute_phash_from_image sample_lib (8, 8) = Inr 0
   \<and> load_embeddings tied_store = Inr [(''b'', 0), (''a'', 0)]
   \<and> [(''b'', 0 :: int), (''a'', 0)] \<noteq> []
   \<and> (\<exists>resp. analyze sample_lib [] tied_store (MultipartFile (Some (8, 8))) = Inr resp
       \<and> hamming_distance resp = 0
       \<and> best_match (debug resp) = Some ''b'')"
proof -
  have ne: "[(''b'', 0 :: int), (''a'', 0)] \<noteq> []" by simp
  from best_match_is_first_minimum [OF sample_decode sample_phash_small load_tied ne, of "[]"]
  obtain resp i d pre post where
    r: "analyze sample_lib [] tied_store (MultipartFile (Some (8, 8))) = Inr resp"
       "[(''b'', 0), (''a'', 0)] = pre @ (i, d) # post"
       "\<forall>p \<in> set pre. d < snd p"
       "hamming_distance resp = d"
       "best_match (debug resp) = Some i"
    unfolding distances_tied by blast
  have "i = ''b'' \<and> d = 0"
  proof (cases pre)
    case Nil
    with r(2) show ?thesis by simp
  next
    case (Cons q qs)
    with r(2) have q: "q = (''b'', 0)" and rest: "[(''a'', 0)] = qs @ (i, d) # post" by simp_all
    from rest have "d = 0" by (cases qs) auto
    moreover from r(3) Cons q have "d < 0" by simp
    ultimately show ?thesis by simp
  qed
  with r(1,4,5) have "\<exists>resp. analyze sample_lib [] tied_store (MultipartFile (Some (8, 8))) = Inr resp
       \<and> hamming_distance resp = 0 \<and> best_match (debug resp) = Some ''b''"
    by blast
  then show ?thesis
    by (intro conjI sample_decode sample_phash_small load_tied ne)
qed

text \<open>
  Claim C2 as stated fails: two entries tie at distance 0; with \<open>b\<close> stored before \<open>a\<close> the
  winner is \<open>b\<close>, which is not the smallest id, and with the same entries stored the other
  way round the winner is \<open>a\<close>.
\<close>

theorem tie_broken_by_iteration_order:
  "load_embeddings tied_store = Inr [(''b'', 0), (''a'', 0)]
   \<and> load_embeddings tied_store_swapped = Inr [(''a'', 0), (''b'', 0)]
   \<and> hamming_distance_int 0 0 = 0
   \<and> map_sum id match_id (analyze sample_lib [] tied_store (MultipartFile (Some (8, 8))))
       = Inr (Some ''b'')
   \<and> map_sum id match_id (analyze sample_lib [] tied_store_swapped (MultipartFile (Some (8, 8))))
       = Inr (Some ''a'')
   \<and> ''a'' < ''b''"
  by (simp add: load_tied load_tied_swapped analyze_def sample_decode sample_phash_small Let_def
      match_response_def hamming_eval MAX_DISTANCE_def)

text \<open>
  Claim C10: when the minimum distance exceeds 40, the response is not a match, reports
  the minimum distance, names the nearest entry and the three nearest candidates in the
  debug section, and has no match id and no confidence.
\<close>

theorem unmatched_response_reports_nearest:
  assumes "decode_upload_to_image ext req = Inr img"
    and "compute_phash_from_image ext img = Inr ph"
    and "load_embeddings file = Inr embs"
    and "embs \<noteq> []"
    and "40 < Min (snd ` set (distances ph embs))"
  shows "\<exists>resp i. analyze ext A file req = Inr resp
     \<and> \<not> matched resp
     \<and> hamming_distance resp = Min (snd ` set (distances ph embs))
     \<and> best_distance (debug resp) = Min (snd ` set (distances ph embs))
     \<and> best_match (debug resp) = Some i
     \<and> (i, Min (snd ` set (distances ph embs))) \<in> set (distances ph embs)
     \<and> top_3 (debug resp) = take 3 (sort_key snd (distances ph embs))
     \<and> sorted (map snd (top_3 (debug resp)))
     \<and> match_id resp = None
     \<and> match_confidence resp = None"
  using assms(1-4)
proof (cases rule: analyze_run [where A = A])
  case (run resp i d pre post)
  have far: "\<not> d \<le> MAX_DISTANCE"
    using assms(5) by (simp add: MAX_DISTANCE_def run(12))
  have mem: "(i, d) \<in> set (distances ph embs)"
    by (subst run(13)) simp
  have srt: "sorted (map snd (top_3 (debug resp)))"
    unfolding run(11) take_map [symmetric] by (rule sorted_wrt_take) simp
  have "\<not> matched resp" "match_id resp = None" "match_confidence resp = None"
    using far by (simp_all add: run(2,3,4))
  then show ?thesis
    using run(1,5,8,9,11) mem srt unfolding run(12) [symmetric] by blast
qed

text \<open>Claim C10 run on the sample library.\<close>

theorem unmatched_response_reports_nearest_witness:
  "decode_upload_to_image sample_lib (MultipartFile (Some (8, 8))) = Inr (8, 8)
   \<and> compute_phash_from_image sample_lib (8, 8) = Inr 0
   \<and> load_embeddings far_store = Inr [(''x'', 4398046511103), (''y'', 2199023255551)]
   \<and> [(''x'', 4398046511103 :: int), (''y'', 2199023255551)] \<noteq> []
   \<and> 40 < Min (snd ` set (distances 0 [(''x'', 4398046511103), (''y'', 2199023255551)]))
   \<and> (\<exists>resp. analyze sample_lib [] far_store (MultipartFile (Some (8, 8))) = Inr resp
       \<and> \<not> matched resp
       \<and> hamming_distance resp = 41
       \<and> best_distance (debug resp) = 41
       \<and> best_match (debug resp) = Some ''y''
       \<and> top_3 (debug resp) = [(''y'', 41), (''x'', 42)]
       \<and> match_id resp = None
       \<and> match_confidence resp = None)"
proof -
  have ne: "[(''x'', 4398046511103 :: int), (''y'', 2199023255551)] \<noteq> []" by simp
  have far: "40 < Min (snd ` set (distances 0 [(''x'', 4398046511103), (''y'', 2199023255551)]))"
    by (simp add: distances_far)
  from unmatched_response_reports_nearest
    [OF sample_decode sample_phash_small load_far ne far, of "[]"]
  show ?thesis
    using sample_decode sample_phash_small load_far far by (auto simp: distances_far)
qed

text \<open>
  Claim C5: with an empty index the handler never returns a response; for every request
  whose image decodes and hashes it returns the error \<open>NoEmbeddings\<close> (status 400, asking
  for \<^verbatim>\<open>/precompute\<close>), which is not the no-match response.
\<close>

theorem empty_index_is_an_error:
  "(load_embeddings file = Inr [] \<longrightarrow> isl (analyze ext A file req))
   \<and> (decode_upload_to_image ext req = Inr img \<and> compute_phash_from_image ext img = Inr ph
        \<and> load_embeddings file = Inr []
       \<longrightarrow> analyze ext A file req = Inl NoEmbeddings)
   \<and> http_status NoEmbeddings = 400
   \<and> error_text NoEmbeddings = ''No embeddings found. Run /precompute first.''"
  by (auto simp: analyze_def Let_def http_status_def error_text_def split: sum.splits)

text \<open>Claim C5 run on the sample library with no store file.\<close>

theorem empty_index_is_an_error_witness:
  "load_embeddings NoFile = Inr []
   \<and> decode_upload_to_image sample_lib (MultipartFile (Some (8, 8))) = Inr (8, 8)
   \<and> compute_phash_from_image sample_lib (8, 8) = Inr 0
   \<and> isl (analyze sample_lib [] NoFile (MultipartFile (Some (8, 8))))
   \<and> analyze sample_lib [] NoFile (MultipartFile (Some (8, 8))) = Inl NoEmbeddings"
proof -
  have ld: "load_embeddings NoFile = Inr []" by (simp add: load_embeddings_def)
  from empty_index_is_an_error [of NoFile sample_lib "[]" "MultipartFile (Some (8, 8))" "(8, 8)" 0]
  show ?thesis using ld sample_decode sample_phash_small by simp
qed

text \<open>
  Claim C7, as the program has it: the fingerprint is hashed from the preprocessed image,
  while the palette and the texture density of the response are computed from the decoded
  upload itself.
\<close>

theorem descriptors_use_uploaded_image:
  assumes "decode_upload_to_image ext req = Inr img"
    and "compute_phash_from_image ext img = Inr ph"
    and "load_embeddings file = Inr embs"
    and "embs \<noteq> []"
  shows "\<exists>resp canonical hsh. analyze ext A file req = Inr resp
     \<and> preprocess_image_for_matching ext img 512 = Inr canonical
     \<and> imagehash_phash ext canonical = Some hsh
     \<and> hamming_distance resp = Min (snd ` set (distances (uint hsh) embs))
     \<and> palette resp = (case kmeans_palette ext img 5 of Inl _ \<Rightarrow> [] | Inr p \<Rightarrow> p)
     \<and> texture_density resp =
         py_round_to (case texture_edge_density ext img of Inl _ \<Rightarrow> 0 | Inr t \<Rightarrow> t) 6"
  using assms
proof (cases rule: analyze_run [where A = A])
  case (run resp i d pre post)
  from assms(2) obtain canonical hsh where
    c: "preprocess_image_for_matching ext img 512 = Inr canonical"
       "imagehash_phash ext canonical = Some hsh" "ph = uint hsh"
    by (auto simp: compute_phash_from_image_def split: sum.splits option.splits)
  have "hamming_distance resp = Min (snd ` set (distances (uint hsh) embs))"
    using run(5,12) c(3) by simp
  then show ?thesis
    using run(1,6,7) c(1,2) by blast
qed

lemma py_round_1953: "py_round (15625 / 8) = 1953"
  by (rule py_round_near) simp_all

lemma py_round_977: "py_round (15625 / 16) = 977"
  by (rule py_round_near) simp_all

lemma fl64_512th: "fl64 (1 / 512) = 1 / 512"
  using fl64_dyadic [of "1 / 512" 1 "- 9"] by simp

lemma fl64_1024th: "fl64 (1 / 1024) = 1 / 1024"
  using fl64_dyadic [of "1 / 1024" 1 "- 10"] by simp

lemma sample_texture_upload: "texture_edge_density sample_lib (1024, 2) = Inr (1 / 1024)"
  by (simp add: texture_edge_density_def sample_lib_def Let_def filter_replicate fl64_1024th)

lemma sample_texture_canonical: "texture_edge_density sample_lib (512, 1) = Inr (1 / 512)"
  by (simp add: texture_edge_density_def sample_lib_def Let_def filter_replicate fl64_512th)

lemma py_round_to_upload: "py_round_to (1 / 1024) 6 = fl64 (977 / 1000000)"
  by (simp add: py_round_to_def py_round_977)

lemma py_round_to_canonical: "py_round_to (1 / 512) 6 = fl64 (1953 / 1000000)"
  by (simp add: py_round_to_def py_round_1953)

text \<open>Claim C7 run on the sample library with an upload of 1024 by 2 pixels.\<close>

theorem descriptors_use_uploaded_image_witness:
  "decode_upload_to_image sample_lib (MultipartFile (Some (1024, 2))) = Inr (1024, 2)
   \<and> compute_phash_from_image sample_lib (1024, 2) = Inr 0
   \<and> load_embeddings tied_store = Inr [(''b'', 0), (''a'', 0)]
   \<and> [(''b'', 0 :: int), (''a'', 0)] \<noteq> []
   \<and> (\<exists>resp canonical hsh.
         analyze sample_lib [] tied_store (MultipartFile (Some (1024, 2))) = Inr resp
       \<and> preprocess_image_for_matching sample_lib (1024, 2) 512 = Inr canonical
       \<and> imagehash_phash sample_lib canonical = Some hsh
       \<and> hamming_distance resp = Min (snd ` set (distances (uint hsh) [(''b'', 0), (''a'', 0)]))
       \<and> palette resp =
           (case kmeans_palette sample_lib (1024, 2) 5 of Inl _ \<Rightarrow> [] | Inr p \<Rightarrow> p)
       \<and> texture_density resp =
           py_round_to (case texture_edge_density sample_lib (1024, 2) of
                          Inl _ \<Rightarrow> 0 | Inr t \<Rightarrow> t) 6)"
proof -
  have ne: "[(''b'', 0 :: int), (''a'', 0)] \<noteq> []" by simp
  from descriptors_use_uploaded_image [OF sample_decode sample_phash_large load_tied ne, of "[]"]
  show ?thesis
    using sample_decode sample_phash_large load_tied ne by blast
qed

text \<open>
  Claim C7 as stated fails: an upload of 1024 by 2 pixels is preprocessed to 512 by 1 for
  the fingerprint; the canonical image has edge density \<open>1/512\<close>, which rounds to the
  float 0.001953, and the response carries the float 0.000977, the rounded density
  \<open>1/1024\<close> of the upload.
\<close>

theorem texture_not_from_canonical_buffer:
  "decode_upload_to_image sample_lib (MultipartFile (Some (1024, 2))) = Inr (1024, 2)
   \<and> preprocess_image_for_matching sample_lib (1024, 2) 512 = Inr (512, 1)
   \<and> texture_edge_density sample_lib (512, 1) = Inr (1 / 512)
   \<and> py_round_to (1 / 512) 6 = fl64 (1953 / 1000000)
   \<and> map_sum id texture_density
        (analyze sample_lib [] tied_store (MultipartFile (Some (1024, 2))))
       = Inr (fl64 (977 / 1000000))
   \<and> fl64 (977 / 1000000) < fl64 (1953 / 1000000)"
proof (intro conjI)
  show "decode_upload_to_image sample_lib (MultipartFile (Some (1024, 2))) = Inr (1024, 2)"
    by (rule sample_decode)
  show "preprocess_image_for_matching sample_lib (1024, 2) 512 = Inr (512, 1)"
    by (rule sample_preprocess_large)
  show "texture_edge_density sample_lib (512, 1) = Inr (1 / 512)"
    by (rule sample_texture_canonical)
  show "py_round_to (1 / 512) 6 = fl64 (1953 / 1000000)"
    by (rule py_round_to_canonical)
  show "map_sum id texture_density
        (analyze sample_lib [] tied_store (MultipartFile (Some (1024, 2))))
       = Inr (fl64 (977 / 1000000))"
    by (simp add: analyze_def sample_decode sample_phash_large sample_texture_upload load_tied
        Let_def match_response_def hamming_eval py_round_to_upload)
  show "fl64 (977 / 1000000) < fl64 (1953 / 1000000)"
    by (rule fl64_less) simp_all
qed

section \<open>Dictionaries built by a loop\<close>

lemma dict_set_fresh: "k \<notin> fst ` set d \<Longrightarrow> dict_set d k v = d @ [(k, v)]"
  by (induction d) auto

lemma load_items_distinct:
  "distinct (map fst items) \<Longrightarrow> fst ` set res \<inter> fst ` set items = {} \<Longrightarrow>
   load_items items res = res @ List.map_filter parsed_entry items"
proof (induction items arbitrary: res)
  case Nil
  show ?case by simp
next
  case (Cons kv items)
  obtain k v where kv: "kv = (k, v)" by (cases kv)
  from Cons.prems have d: "distinct (map fst items)" and k: "k \<notin> fst ` set items"
    and fresh: "k \<notin> fst ` set res" and disj: "fst ` set res \<inter> fst ` set items = {}"
    by (auto simp: kv)
  show ?case
  proof (cases "py_int v")
    case (Inl e)
    then have pe: "parsed_entry (k, v) = None" by (simp add: parsed_entry_def)
    show ?thesis
      using Cons.IH [OF d disj] Inl
      by (simp add: kv pe)
  next
    case (Inr n)
    then have pe: "parsed_entry (k, v) = Some (k, n)" by (simp add: parsed_entry_def)
    have disj': "fst ` set (res @ [(k, n)]) \<inter> fst ` set items = {}"
      using disj k by auto
    show ?thesis
      using Cons.IH [OF d disj'] Inr fresh
      by (simp add: kv pe dict_set_fresh)
  qed
qed

lemma map_filter_keys:
  "(k, n) \<in> set (List.map_filter parsed_entry items) \<Longrightarrow> \<exists>v. (k, v) \<in> set items \<and> py_int v = Inr n"
  by (auto simp: List.map_filter_def parsed_entry_def split: sum.splits)

lemma length_map_filter_parsed:
  "length (List.map_filter parsed_entry items) + length (filter (\<lambda>kv. isl (py_int (snd kv))) items)
   = length items"
  by (induction items) (auto simp: List.map_filter_def parsed_entry_def split: sum.splits)

lemma length_dec_str_lower: "10 ^ k \<le> n \<Longrightarrow> k < length (dec_str n)"
proof (induction k arbitrary: n)
  case 0
  show ?case by (simp add: dec_str.simps [of n])
next
  case (Suc k)
  have "(1 :: nat) \<le> 10 ^ k" by simp
  then have "(10 :: nat) \<le> 10 ^ Suc k" by simp
  with Suc.prems have big: "\<not> n < 10" by linarith
  from Suc.prems have "10 ^ k \<le> n div 10" by simp
  then have "k < length (dec_str (n div 10))" by (rule Suc.IH)
  then show ?case using big by (simp add: dec_str.simps [of n])
qed

lemma oversized_literal: "4300 \<le> k \<Longrightarrow> \<not> json_loadable (JInt (10 ^ k))"
proof -
  assume k: "4300 \<le> k"
  have n: "nat \<bar>(10 :: int) ^ k\<bar> = 10 ^ k" by (simp add: nat_power_eq)
  have "k < length (dec_str (10 ^ k))" by (rule length_dec_str_lower) simp
  with k have "\<not> length (dec_str (10 ^ k)) \<le> int_max_str_digits"
    by (simp add: int_max_str_digits_def)
  then show ?thesis by (simp only: json_loadable.simps n not_False_eq_True)
qed

lemma object_not_loadable: "\<not> json_loadable v \<Longrightarrow> \<not> json_loadable (JObj [(k, v)])"
  by simp

lemma load_not_loadable: "\<not> json_loadable raw \<Longrightarrow> load_embeddings (Stored raw) = Inl ValueError"
  by (simp add: load_embeddings_def)

text \<open>
  Claim C9, as the program has it: when \<^verbatim>\<open>json.load\<close> reads the store as an object, loading
  raises nothing; the result is the items whose value converts, in order; an item whose
  value does not convert is absent, so the index has as many entries fewer than the file
  as there are such items.
\<close>

theorem unparsable_entries_are_dropped:
  assumes "json_loadable (JObj items)" "distinct (map fst items)"
  shows "\<exists>res. load_embeddings (Stored (JObj items)) = Inr res
     \<and> res = List.map_filter parsed_entry items
     \<and> (\<forall>kv \<in> set items. isl (py_int (snd kv)) \<longrightarrow> fst kv \<notin> fst ` set res)
     \<and> (\<forall>kv \<in> set items. \<forall>n. py_int (snd kv) = Inr n \<longrightarrow> (fst kv, n) \<in> set res)
     \<and> length res + length (filter (\<lambda>kv. isl (py_int (snd kv))) items) = length items"
proof -
  let ?res = "List.map_filter parsed_entry items"
  have ld: "load_embeddings (Stored (JObj items)) = Inr ?res"
    using assms(1) load_items_distinct [OF assms(2), of "[]"] by (simp add: load_embeddings_def)
  have drop: "\<forall>kv \<in> set items. isl (py_int (snd kv)) \<longrightarrow> fst kv \<notin> fst ` set ?res"
  proof (intro ballI impI notI)
    fix kv assume kv: "kv \<in> set items" and bad: "isl (py_int (snd kv))"
      and "fst kv \<in> fst ` set ?res"
    then obtain n where "(fst kv, n) \<in> set ?res" by force
    from map_filter_keys [OF this] obtain v where
      v: "(fst kv, v) \<in> set items" "py_int v = Inr n" by blast
    have "v = snd kv"
      using assms(2) kv v(1) by (metis eq_key_imp_eq_value prod.collapse)
    with bad v(2) show False by simp
  qed
  have keep: "\<forall>kv \<in> set items. \<forall>n. py_int (snd kv) = Inr n \<longrightarrow> (fst kv, n) \<in> set ?res"
    by (force simp: List.map_filter_def parsed_entry_def)
  from ld drop keep length_map_filter_parsed [of items] show ?thesis by blast
qed

text \<open>Claim C9 on a store of three items, one of which is not a number.\<close>

theorem unparsable_entries_are_dropped_witness:
  "json_loadable (JObj [(''x'', JStr ''4398046511103''), (''y'', JStr ''2199023255551''),
                        (''z'', JStr ''not a number'')])
   \<and> distinct (map fst [(''x'', JStr ''4398046511103''), (''y'', JStr ''2199023255551''),
                      (''z'', JStr ''not a number'')])
   \<and> isl (py_int (JStr ''not a number''))
   \<and> load_embeddings far_store = Inr [(''x'', 4398046511103), (''y'', 2199023255551)]
   \<and> (\<exists>res. load_embeddings far_store = Inr res
        \<and> ''z'' \<notin> fst ` set res
        \<and> length res + 1 = (3 :: nat))"
proof -
  let ?items = "[(''x'', JStr ''4398046511103''), (''y'', JStr ''2199023255551''),
                 (''z'', JStr ''not a number'')]"
  have l: "json_loadable (JObj ?items)" by simp
  have d: "distinct (map fst ?items)" by simp
  have bad: "isl (py_int (JStr ''not a number''))"
    by (simp add: int_of_str_eval)
  have good: "\<not> isl (py_int (JStr ''4398046511103''))" "\<not> isl (py_int (JStr ''2199023255551''))"
    by (simp_all add: int_of_str_eval)
  from unparsable_entries_are_dropped [OF l d] obtain res where
    r: "load_embeddings (Stored (JObj ?items)) = Inr res"
       "\<forall>kv \<in> set ?items. isl (py_int (snd kv)) \<longrightarrow> fst kv \<notin> fst ` set res"
       "length res + length (filter (\<lambda>kv. isl (py_int (snd kv))) ?items) = length ?items"
    by blast
  have "''z'' \<notin> fst ` set res" using r(2) bad by simp
  moreover have "length res + 1 = (3 :: nat)" using r(3) bad good by simp
  ultimately have "\<exists>res. load_embeddings far_store = Inr res
        \<and> ''z'' \<notin> fst ` set res \<and> length res + 1 = (3 :: nat)"
    using r(1) unfolding far_store_def by blast
  then show ?thesis by (intro conjI l d bad load_far)
qed

text \<open>
  Claim C9 as stated fails: a stored value written as an integer of 4301 digits does not
  convert, and it is not dropped: \<^verbatim>\<open>json.load\<close> raises \<^verbatim>\<open>ValueError\<close> before the loop, and the
  exception leaves \<^verbatim>\<open>load_embeddings\<close>.
\<close>

theorem oversized_integer_raises:
  "int_max_str_digits < length (dec_str (10 ^ 4300))
   \<and> load_embeddings (Stored (JObj [(''a'', JInt (10 ^ 4300))])) = Inl ValueError"
proof
  show "int_max_str_digits < length (dec_str (10 ^ 4300))"
    unfolding int_max_str_digits_def by (rule length_dec_str_lower) (rule order_refl)
  show "load_embeddings (Stored (JObj [(''a'', JInt (10 ^ 4300))])) = Inl ValueError"
    by (rule load_not_loadable [OF object_not_loadable [OF oversized_literal [OF order_refl]]])
qed

section \<open>Decimal strings\<close>

lemma digit_char_is_digit: "d < 10 \<Longrightarrow> is_digit (digit_char d)"
proof -
  assume "d < 10"
  then have "d \<in> {0, 1, 2, 3, 4, 5, 6, 7, 8, 9}" by auto
  then show ?thesis by (auto simp: digit_char_def is_digit_def)
qed

lemma digit_val_digit_char: "d < 10 \<Longrightarrow> digit_val (digit_char d) = d"
proof -
  assume "d < 10"
  then have "d \<in> {0, 1, 2, 3, 4, 5, 6, 7, 8, 9}" by auto
  then show ?thesis by (auto simp: digit_char_def digit_val_def)
qed

lemma dec_str_digits: "c \<in> set (dec_str n) \<Longrightarrow> is_digit c"
proof (induction n rule: dec_str.induct)
  case (1 n)
  show ?case
  proof (cases "n < 10")
    case True
    with "1.prems" show ?thesis by (simp add: dec_str.simps [of n] digit_char_is_digit)
  next
    case False
    with "1.prems" "1.IH" show ?thesis
      by (auto simp: dec_str.simps [of n] digit_char_is_digit)
  qed
qed

lemma dec_str_nonempty: "dec_str n \<noteq> []"
  by (simp add: dec_str.simps [of n])

lemma length_dec_str: "n < 10 ^ k \<Longrightarrow> 0 < k \<Longrightarrow> length (dec_str n) \<le> k"
proof (induction n arbitrary: k rule: dec_str.induct)
  case (1 n)
  show ?case
  proof (cases "n < 10")
    case True
    with "1.prems" show ?thesis by (simp add: dec_str.simps [of n])
  next
    case False
    from "1.prems" obtain k' where k: "k = Suc k'" by (cases k) auto
    have "k' \<noteq> 0" using False "1.prems" k by (cases k') auto
    moreover have "n div 10 < 10 ^ k'" using "1.prems" k by (simp add: less_mult_imp_div_less mult.commute)
    ultimately have "length (dec_str (n div 10)) \<le> k'" using "1.IH" [OF False] by simp
    then show ?thesis using False k by (simp add: dec_str.simps [of n])
  qed
qed

lemma parse_digits_all:
  "\<forall>c \<in> set cs. is_digit c \<Longrightarrow> cs \<noteq> [] \<or> p \<Longrightarrow>
   parse_digits acc p cs = Some (foldl (\<lambda>a c. a * 10 + digit_val c) acc cs)"
  by (induction cs arbitrary: acc p) auto

lemma foldl_dec_str:
  "foldl (\<lambda>a c. a * 10 + digit_val c) acc (dec_str n) = acc * 10 ^ length (dec_str n) + n"
proof (induction n arbitrary: acc rule: dec_str.induct)
  case (1 n)
  show ?case
  proof (cases "n < 10")
    case True
    then show ?thesis by (simp add: dec_str.simps [of n] digit_val_digit_char)
  next
    case False
    then show ?thesis
      using "1.IH" [OF False, of acc]
      by (simp add: dec_str.simps [of n] digit_val_digit_char algebra_simps)
  qed
qed

lemma dropWhile_none: "\<forall>c \<in> set cs. \<not> P c \<Longrightarrow> dropWhile P cs = cs"
  by (cases cs) auto

lemma digit_not_space: "is_digit c \<Longrightarrow> \<not> is_space c"
  by (auto simp: is_digit_def is_space_def)

lemma digit_not_sign: "is_digit c \<Longrightarrow> c \<noteq> CHR ''-'' \<and> c \<noteq> CHR ''+''"
  by (auto simp: is_digit_def)

lemma int_of_str_py_str:
  assumes "0 \<le> n" "n < 2 ^ 64"
  shows "int_of_str (py_str n) = Inr n"
proof -
  let ?s = "dec_str (nat n)"
  have s: "py_str n = ?s" using assms(1) by (simp add: py_str_def)
  have dg: "\<forall>c \<in> set ?s. is_digit c" by (simp add: dec_str_digits)
  have strip: "py_strip ?s = ?s"
    using dg by (simp add: py_strip_def dropWhile_none digit_not_space)
  obtain c cs where cs: "?s = c # cs" using dec_str_nonempty [of "nat n"] by (cases ?s) auto
  then have "is_digit c" using dg by simp
  then have sign: "c \<noteq> CHR ''-''" "c \<noteq> CHR ''+''" using digit_not_sign by auto
  have "nat n < 10 ^ 20" using assms by (simp add: nat_less_iff)
  then have "length ?s \<le> 20" by (rule length_dec_str) simp
  then have len: "\<not> int_max_str_digits < length (filter is_digit ?s)"
    using dg by (simp add: int_max_str_digits_def)
  have parse: "parse_digits 0 False ?s = Some (nat n)"
    using parse_digits_all [OF dg, of False 0] dec_str_nonempty [of "nat n"]
    by (simp add: foldl_dec_str)
  have "int_of_str (c # cs) = Inr (int (nat n))"
    using sign len [unfolded cs] parse [unfolded cs]
    by (simp add: int_of_str_def strip [unfolded cs] Let_def
        del: parse_digits.simps filter.simps)
  then have "int_of_str ?s = Inr (int (nat n))" by (simp only: cs)
  then show ?thesis using assms(1) s by simp
qed


section \<open>The rebuilt index\<close>

lemma entry_raises_iff: "isl (entry_fingerprint ext meta) \<longleftrightarrow> \<not> well_typed_entry meta"
  by (auto simp: entry_fingerprint_def well_typed_entry_def
      split: json.splits option.splits sum.splits)

lemma entry_fingerprint_Some_iff:
  "entry_fingerprint ext meta = Inr (Some ph) \<longleftrightarrow>
     (\<exists>items name bytes opened img.
        meta = JObj items \<and> map_of items ''image'' = Some (JStr name) \<and> name \<noteq> []
      \<and> file_at ext (os_path_join (images_dir ext) name) = Some bytes
      \<and> pil_open ext bytes = Some opened
      \<and> pil_convert_rgb ext opened = Some img
      \<and> compute_phash_from_image ext img = Inr ph)"
  by (auto simp: entry_fingerprint_def split: json.splits option.splits sum.splits)

lemma precompute_loop_distinct:
  "distinct (map fst arts) \<Longrightarrow> fst ` set embs \<inter> fst ` set arts = {} \<Longrightarrow>
   \<forall>e \<in> set arts. well_typed_entry (snd e) \<Longrightarrow>
   precompute_loop ext arts (embs, c) =
     Inr (embs @ List.map_filter (indexed_entry ext) arts,
          c + length (List.map_filter (indexed_entry ext) arts))"
proof (induction arts arbitrary: embs c)
  case Nil
  show ?case by simp
next
  case (Cons entry arts)
  obtain i m where entry: "entry = (i, m)" by (cases entry)
  from Cons.prems have d: "distinct (map fst arts)" and i: "i \<notin> fst ` set arts"
    and fresh: "i \<notin> fst ` set embs" and disj: "fst ` set embs \<inter> fst ` set arts = {}"
    and wt: "\<forall>e \<in> set arts. well_typed_entry (snd e)" and wm: "well_typed_entry m"
    by (auto simp: entry)
  from wm have "\<not> isl (entry_fingerprint ext m)" by (simp only: entry_raises_iff) simp
  then obtain r where r: "entry_fingerprint ext m = Inr r"
    by (cases "entry_fingerprint ext m") auto
  show ?case
  proof (cases r)
    case None
    with r have ie: "indexed_entry ext (i, m) = None" by (simp add: indexed_entry_def)
    show ?thesis
      using Cons.IH [OF d disj wt, of c] r None by (simp add: entry ie)
  next
    case (Some ph)
    with r have ie: "indexed_entry ext (i, m) = Some (i, ph)" by (simp add: indexed_entry_def)
    have disj': "fst ` set (embs @ [(i, ph)]) \<inter> fst ` set arts = {}"
      using disj i by auto
    show ?thesis
      using Cons.IH [OF d disj' wt, of "c + 1"] r Some fresh
      by (simp add: entry ie dict_set_fresh)
  qed
qed

lemma precompute_loop_raises:
  "\<exists>e \<in> set arts. \<not> well_typed_entry (snd e) \<Longrightarrow> \<exists>exc. precompute_loop ext arts st = Inl exc"
proof (induction arts arbitrary: st)
  case Nil
  then show ?case by simp
next
  case (Cons entry arts)
  obtain i m where entry: "entry = (i, m)" by (cases entry)
  obtain embs c where st: "st = (embs, c)" by (cases st)
  show ?case
  proof (cases "entry_fingerprint ext m")
    case (Inl exc)
    then show ?thesis by (simp add: entry st)
  next
    case (Inr r)
    then have "\<not> isl (entry_fingerprint ext m)" by simp
    then have "well_typed_entry m" by (simp only: entry_raises_iff) simp
    with Cons.prems have later: "\<exists>e \<in> set arts. \<not> well_typed_entry (snd e)"
      by (auto simp: entry)
    show ?thesis
    proof (cases r)
      case None
      with Inr Cons.IH [OF later, of "(embs, c)"] show ?thesis by (simp add: entry st)
    next
      case (Some ph)
      with Inr Cons.IH [OF later, of "(dict_set embs i ph, c + 1)"] show ?thesis
        by (simp add: entry st)
    qed
  qed
qed

lemma precompute_raises:
  assumes "\<exists>e \<in> set ARTWORKS. \<not> well_typed_entry (snd e)"
  shows "\<exists>exc. precompute ext ARTWORKS file = (Inl (Uncaught exc), file)"
proof -
  from assms have ne: "ARTWORKS \<noteq> []" by auto
  from precompute_loop_raises [OF assms, of ext "([], 0)"] obtain exc where
    "precompute_loop ext ARTWORKS ([], 0) = Inl exc" by blast
  with ne show ?thesis by (simp add: precompute_def)
qed

lemma entry_fingerprint_range:
  "entry_fingerprint ext m = Inr (Some ph) \<Longrightarrow> 0 \<le> ph \<and> ph < 2 ^ 64"
proof -
  assume "entry_fingerprint ext m = Inr (Some ph)"
  then obtain img where "compute_phash_from_image ext img = Inr ph"
    unfolding entry_fingerprint_Some_iff by blast
  then show ?thesis by (rule compute_phash_range)
qed

lemma indexed_entry_Some_iff:
  "indexed_entry ext e = Some p \<longleftrightarrow> (\<exists>ph. entry_fingerprint ext (snd e) = Inr (Some ph) \<and> p = (fst e, ph))"
  by (auto simp: indexed_entry_def split: sum.splits option.splits)

lemma indexed_values_range:
  "(i, ph) \<in> set (List.map_filter (indexed_entry ext) arts) \<Longrightarrow> 0 \<le> ph \<and> ph < 2 ^ 64"
proof -
  assume "(i, ph) \<in> set (List.map_filter (indexed_entry ext) arts)"
  then obtain e where "indexed_entry ext e = Some (i, ph)"
    by (auto simp: List.map_filter_def)
  then have "entry_fingerprint ext (snd e) = Inr (Some ph)"
    unfolding indexed_entry_Some_iff by simp
  then show ?thesis by (rule entry_fingerprint_range)
qed

lemma indexed_keys:
  "map fst (List.map_filter (indexed_entry ext) arts)
     = map fst (filter (\<lambda>e. indexed_entry ext e \<noteq> None) arts)"
  by (induction arts) (auto simp: indexed_entry_def split: sum.splits option.splits)

lemma parsed_saved:
  "\<forall>kv \<in> set idx. 0 \<le> snd kv \<and> snd kv < 2 ^ 64 \<Longrightarrow>
   List.map_filter parsed_entry (map (\<lambda>(k, v). (k, JStr (py_str v))) idx) = idx"
  by (induction idx) (auto simp: parsed_entry_def int_of_str_py_str)

lemma saved_loadable: "list_all json_loadable (map snd (map (\<lambda>(k, v). (k, JStr (py_str v))) idx))"
  by (induction idx) auto

lemma load_saved:
  assumes "distinct (map fst idx)" "\<forall>kv \<in> set idx. 0 \<le> snd kv \<and> snd kv < 2 ^ 64"
  shows "load_embeddings (save_embeddings idx) = Inr idx"
proof -
  let ?items = "map (\<lambda>(k, v). (k, JStr (py_str v))) idx"
  have "map fst ?items = map fst idx" by (induction idx) auto
  then have "distinct (map fst ?items)" using assms(1) by (simp only:)
  from load_items_distinct [OF this, of "[]"] parsed_saved [OF assms(2)] saved_loadable [of idx]
  show ?thesis by (simp add: load_embeddings_def save_embeddings_def)
qed

lemma rebuild_nonempty:
  assumes "ARTWORKS \<noteq> []" "distinct (map fst ARTWORKS)"
    and "\<forall>e \<in> set ARTWORKS. well_typed_entry (snd e)"
  shows "\<exists>idx. precompute ext ARTWORKS file = (Inr (length idx), save_embeddings idx)
     \<and> idx = List.map_filter (indexed_entry ext) ARTWORKS
     \<and> (\<forall>e \<in> set ARTWORKS.
          case indexed_entry ext e of
            None \<Rightarrow> fst e \<notin> fst ` set idx
          | Some p \<Rightarrow> p \<in> set idx)
     \<and> length idx = length (filter (\<lambda>e. indexed_entry ext e \<noteq> None) ARTWORKS)
     \<and> load_embeddings (save_embeddings idx) = Inr idx"
proof -
  let ?idx = "List.map_filter (indexed_entry ext) ARTWORKS"
  let ?ok = "\<lambda>e. indexed_entry ext e \<noteq> None"
  have loop: "precompute_loop ext ARTWORKS ([], 0) = Inr (?idx, length ?idx)"
    using precompute_loop_distinct [OF assms(2) _ assms(3), of "[]" ext 0] by simp
  have run: "precompute ext ARTWORKS file = (Inr (length ?idx), save_embeddings ?idx)"
    using assms(1) by (simp add: precompute_def loop)
  have keys: "map fst ?idx = map fst (filter ?ok ARTWORKS)" by (rule indexed_keys)
  have len: "length ?idx = length (filter ?ok ARTWORKS)"
    using arg_cong [OF keys, of length] by simp
  have dist: "distinct (map fst ?idx)"
    unfolding keys using assms(2) by (rule distinct_map_filter)
  have members: "\<forall>e \<in> set ARTWORKS.
          case indexed_entry ext e of
            None \<Rightarrow> fst e \<notin> fst ` set ?idx
          | Some p \<Rightarrow> p \<in> set ?idx"
  proof
    fix e assume e: "e \<in> set ARTWORKS"
    show "case indexed_entry ext e of
            None \<Rightarrow> fst e \<notin> fst ` set ?idx
          | Some p \<Rightarrow> p \<in> set ?idx"
    proof (cases "indexed_entry ext e")
      case None
      have "fst e \<notin> fst ` set (filter ?ok ARTWORKS)"
      proof
        assume "fst e \<in> fst ` set (filter ?ok ARTWORKS)"
        then obtain e' where e': "e' \<in> set ARTWORKS" "?ok e'" "fst e' = fst e" by auto
        then have "e' = e"
          using assms(2) e by (metis eq_key_imp_eq_value prod.collapse)
        with e'(2) None show False by simp
      qed
      then have "fst e \<notin> set (map fst ?idx)" unfolding keys by simp
      then show ?thesis using None by simp
    next
      case (Some p)
      then have "p \<in> set ?idx"
        using e by (force simp: List.map_filter_def)
      then show ?thesis using Some by simp
    qed
  qed
  have rng: "\<forall>kv \<in> set ?idx. 0 \<le> snd kv \<and> snd kv < 2 ^ 64"
    using indexed_values_range [of _ _ ext ARTWORKS] by force
  from run members len load_saved [OF dist rng] show ?thesis by blast
qed

text \<open>
  Claim C6, as the program has it, for catalogs whose entries are objects with an image
  name that is absent, false or a string. For the empty catalog \<^verbatim>\<open>precompute\<close> answers
  with an error and leaves the store as it is. For a catalog that is not empty it returns
  a count and raises nothing; the persisted index holds exactly the entries that have a
  non-empty image name whose file exists, opens, converts and can be fingerprinted; the
  count is their number; loading the persisted file gives back that index.
\<close>

theorem rebuild_indexes_fingerprinted_entries:
  "precompute ext [] file = (Inl NoArtworks, file)
   \<and> http_status NoArtworks = 400
   \<and> error_text NoArtworks = ''artworks.json missing or empty''
   \<and> (ARTWORKS \<noteq> [] \<and> distinct (map fst ARTWORKS)
        \<and> (\<forall>e \<in> set ARTWORKS. well_typed_entry (snd e)) \<longrightarrow>
      (\<exists>idx. precompute ext ARTWORKS file = (Inr (length idx), save_embeddings idx)
         \<and> idx = List.map_filter (indexed_entry ext) ARTWORKS
         \<and> (\<forall>e \<in> set ARTWORKS.
              case indexed_entry ext e of
                None \<Rightarrow> fst e \<notin> fst ` set idx
              | Some p \<Rightarrow> p \<in> set idx)
         \<and> length idx = length (filter (\<lambda>e. indexed_entry ext e \<noteq> None) ARTWORKS)
         \<and> load_embeddings (save_embeddings idx) = Inr idx))
   \<and> (indexed_entry ext (i, meta) = Some p \<longleftrightarrow>
        (\<exists>items name bytes opened img ph.
           meta = JObj items \<and> map_of items ''image'' = Some (JStr name) \<and> name \<noteq> []
         \<and> file_at ext (os_path_join (images_dir ext) name) = Some bytes
         \<and> pil_open ext bytes = Some opened
         \<and> pil_convert_rgb ext opened = Some img
         \<and> compute_phash_from_image ext img = Inr ph
         \<and> p = (i, ph)))"
proof (intro conjI impI)
  show "precompute ext [] file = (Inl NoArtworks, file)"
    by (simp add: precompute_def)
  show "http_status NoArtworks = 400"
    by (simp add: http_status_def)
  show "error_text NoArtworks = ''artworks.json missing or empty''"
    by (simp add: error_text_def)
next
  assume h: "ARTWORKS \<noteq> [] \<and> distinct (map fst ARTWORKS)
        \<and> (\<forall>e \<in> set ARTWORKS. well_typed_entry (snd e))"
  then show "\<exists>idx. precompute ext ARTWORKS file = (Inr (length idx), save_embeddings idx)
         \<and> idx = List.map_filter (indexed_entry ext) ARTWORKS
         \<and> (\<forall>e \<in> set ARTWORKS.
              case indexed_entry ext e of
                None \<Rightarrow> fst e \<notin> fst ` set idx
              | Some p \<Rightarrow> p \<in> set idx)
         \<and> length idx = length (filter (\<lambda>e. indexed_entry ext e \<noteq> None) ARTWORKS)
         \<and> load_embeddings (save_embeddings idx) = Inr idx"
    by (intro rebuild_nonempty) simp_all
next
  show "indexed_entry ext (i, meta) = Some p \<longleftrightarrow>
        (\<exists>items name bytes opened img ph.
           meta = JObj items \<and> map_of items ''image'' = Some (JStr name) \<and> name \<noteq> []
         \<and> file_at ext (os_path_join (images_dir ext) name) = Some bytes
         \<and> pil_open ext bytes = Some opened
         \<and> pil_convert_rgb ext opened = Some img
         \<and> compute_phash_from_image ext img = Inr ph
         \<and> p = (i, ph))"
    unfolding indexed_entry_Some_iff entry_fingerprint_Some_iff by auto
qed

section \<open>The sample library, field by field\<close>

lemma sample_fields:
  "pil_open sample_lib bytes = bytes"
  "pil_convert_rgb sample_lib img = Some img"
  "images_dir sample_lib = ''/srv/backend/images''"
  "file_at sample_lib path =
     (if path = ''/srv/backend/images/a.jpg'' then Some (Some (8, 8))
      else if path = ''/srv/backend/images/broken.jpg'' then Some None
      else if path = ''/srv/backend/images/thin.jpg'' then Some (Some (1024, 1))
      else None)"
  by (simp_all add: sample_lib_def)

lemma sample_phash_thin: "compute_phash_from_image sample_lib (1024, Suc 0) = Inl LibraryError"
proof -
  have "preprocess_image_for_matching sample_lib (1024, Suc 0) 512 = Inl LibraryError"
    by (simp add: preprocess_image_for_matching_def sample_lib_def Let_def fl64_half
        fl64_numeral)
  then show ?thesis by (simp add: compute_phash_from_image_def)
qed

lemma sample_index: "List.map_filter (indexed_entry sample_lib) sample_catalog = [(''a'', 0)]"
  by (simp add: sample_catalog_def indexed_entry_def entry_fingerprint_def os_path_join_def
      sample_fields sample_phash_small sample_phash_thin)

text \<open>Claim C6 on the empty catalog and on the sample catalog: of five entries one is
  indexed.\<close>

theorem rebuild_indexes_fingerprinted_entries_witness:
  "sample_catalog \<noteq> [] \<and> distinct (map fst sample_catalog)
   \<and> list_all (\<lambda>e. well_typed_entry (snd e)) sample_catalog
   \<and> precompute sample_lib [] NoFile = (Inl NoArtworks, NoFile)
   \<and> precompute sample_lib sample_catalog NoFile = (Inr 1, save_embeddings [(''a'', 0)])
   \<and> load_embeddings (save_embeddings [(''a'', 0)]) = Inr [(''a'', 0)]"
proof -
  have ne: "sample_catalog \<noteq> []" by (simp add: sample_catalog_def)
  have d: "distinct (map fst sample_catalog)" by (simp add: sample_catalog_def)
  have wl: "list_all (\<lambda>e. well_typed_entry (snd e)) sample_catalog"
    by (simp add: sample_catalog_def well_typed_entry_def)
  then have wt: "\<forall>e \<in> set sample_catalog. well_typed_entry (snd e)"
    by (simp only: list_all_iff)
  note t = rebuild_indexes_fingerprinted_entries
    [of sample_lib NoFile sample_catalog "''a''" "JObj []" "(''a'', 0)"]
  from t have e: "precompute sample_lib [] NoFile = (Inl NoArtworks, NoFile)" by blast
  from t ne d wt obtain idx where
    r: "precompute sample_lib sample_catalog NoFile = (Inr (length idx), save_embeddings idx)"
       "idx = List.map_filter (indexed_entry sample_lib) sample_catalog"
       "load_embeddings (save_embeddings idx) = Inr idx"
    by blast
  from r(2) have idx: "idx = [(''a'', 0)]" by (simp only: sample_index)
  have "precompute sample_lib sample_catalog NoFile = (Inr 1, save_embeddings [(''a'', 0)])"
    using r(1) unfolding idx by simp
  moreover have "load_embeddings (save_embeddings [(''a'', 0)]) = Inr [(''a'', 0)]"
    using r(3) unfolding idx .
  ultimately show ?thesis using ne d wl e by blast
qed

text \<open>
  Claim C6 as stated fails twice. For the empty catalog the answer is an error, there is
  no count and the store keeps its old content. And an image of 1024 by 1 pixels is
  present and decodes, yet it is skipped, because its preprocessed height is 0 and the
  resize raises: the count is 0 for a catalog with one present, decodable image.
\<close>

theorem rebuild_skips_beyond_missing_or_corrupt:
  "precompute sample_lib [] far_store = (Inl NoArtworks, far_store)
   \<and> file_at sample_lib (os_path_join (images_dir sample_lib) ''thin.jpg'') = Some (Some (1024, 1))
   \<and> pil_open sample_lib (Some (1024, 1)) = Some (1024, 1)
   \<and> pil_convert_rgb sample_lib (1024, 1) = Some (1024, 1)
   \<and> precompute sample_lib [(''t'', JObj [(''image'', JStr ''thin.jpg'')])] NoFile
       = (Inr 0, save_embeddings [])"
  by (simp add: precompute_def entry_fingerprint_def os_path_join_def sample_fields
      sample_phash_thin)

text \<open>An image name that is a number raises before the loop can skip the entry.\<close>

lemma precompute_raises_on_number:
  "precompute ext [(i, JObj [(''image'', JInt 5)])] file = (Inl (Uncaught TypeError), file)"
  by (simp add: precompute_def entry_fingerprint_def)

section \<open>Palette\<close>

lemma tl_normalize_first: "tl (normalize_first pal) = tl pal"
  by (cases pal) (auto simp: normalize_first_def Let_def)

lemma length_normalize_first: "length (normalize_first pal) = length pal"
  by (cases pal) (auto simp: normalize_first_def Let_def)

lemma sum_normalize_first:
  assumes "0 \<le> percent p" "0 \<le> sum_list (map percent ps)"
  shows "sum_list (map percent (normalize_first (p # ps))) = max 100 (sum_list (map percent ps))"
    and "100 < sum_list (map percent ps) \<Longrightarrow> percent (hd (normalize_first (p # ps))) = 0"
    and "0 \<le> percent (hd (normalize_first (p # ps)))"
  using assms by (auto simp: normalize_first_def Let_def)

lemma normalize_first_map:
  fixes mk :: "nat \<Rightarrow> swatch"
  assumes nn: "\<And>i. 0 \<le> percent (mk i)" and k: "1 \<le> k"
    and pal: "pal = normalize_first (map mk [0 ..< k])"
  shows "length pal = k"
    and "sum_list (map percent pal) = max 100 (sum_list (map percent (tl pal)))"
    and "100 < sum_list (map percent (tl pal)) \<Longrightarrow> percent (hd pal) = 0"
    and "\<forall>s \<in> set pal. 0 \<le> percent s"
proof -
  from k have raw: "map mk [0 ..< k] = mk 0 # map mk [1 ..< k]"
    by (simp add: upt_conv_Cons)
  have rest: "0 \<le> sum_list (map percent (map mk [1 ..< k]))"
    by (rule sum_list_nonneg) (auto simp: nn)
  have tl: "tl pal = map mk [1 ..< k]"
    unfolding pal tl_normalize_first raw by simp
  show len: "length pal = k" unfolding pal length_normalize_first by simp
  show "sum_list (map percent pal) = max 100 (sum_list (map percent (tl pal)))"
    unfolding tl unfolding pal raw by (rule sum_normalize_first(1) [OF nn rest])
  show "percent (hd pal) = 0" if "100 < sum_list (map percent (tl pal))"
    using that unfolding tl unfolding pal raw by (rule sum_normalize_first(2) [OF nn rest])
  have hd0: "0 \<le> percent (hd pal)"
    unfolding pal raw by (rule sum_normalize_first(3) [OF nn rest])
  show "\<forall>s \<in> set pal. 0 \<le> percent s"
  proof
    fix s assume "s \<in> set pal"
    moreover have "pal = hd pal # tl pal"
      using len k by (cases pal) auto
    ultimately have "s = hd pal \<or> s \<in> set (tl pal)" by (metis set_ConsD)
    then show "0 \<le> percent s"
      using hd0 unfolding tl by (auto simp: nn)
  qed
qed

lemma palette_of_clusters_sum:
  assumes "palette_of_clusters k labels centers = Inr pal" "1 \<le> k"
  shows "length pal = k"
    and "sum_list (map percent pal) = max 100 (sum_list (map percent (tl pal)))"
    and "100 < sum_list (map percent (tl pal)) \<Longrightarrow> percent (hd pal) = 0"
    and "\<forall>s \<in> set pal. 0 \<le> percent s"
proof -
  let ?counts = "bincount labels k"
  let ?total = "if 0 < sum_list ?counts then sum_list ?counts else 1"
  let ?mk = "\<lambda>i. \<lparr>hex = rgb_to_hex (centers ! i),
                   percent =
                     py_round (fl64 (100 * fl64 (rat_of_nat (?counts ! i) / rat_of_nat ?total)))\<rparr>"
  have "palette_of_clusters k labels centers =
          (if length centers < k then Inl IndexError
           else Inr (normalize_first (map ?mk [0 ..< k])))"
    by (simp only: palette_of_clusters_def Let_def)
  with assms(1) have pal: "pal = normalize_first (map ?mk [0 ..< k])"
    by (cases "length centers < k") simp_all
  have nn: "0 \<le> percent (?mk i)" for i
    by (simp add: py_round_nonneg fl64_nonneg)
  note r = normalize_first_map [of ?mk, OF nn assms(2) pal]
  show "length pal = k" by (rule r(1))
  show "sum_list (map percent pal) = max 100 (sum_list (map percent (tl pal)))" by (rule r(2))
  show "percent (hd pal) = 0" if "100 < sum_list (map percent (tl pal))"
    using that by (rule r(3))
  show "\<forall>s \<in> set pal. 0 \<le> percent s" by (rule r(4))
qed

text \<open>
  Claim C1, as the program has it: for \<open>k \<ge> 1\<close> a returned palette has \<open>k\<close> swatches with
  non-negative percents. The first swatch absorbs the rounding error, clamped to
  \<open>[0, 100]\<close>: the percents sum to exactly 100 whenever the other swatches sum to at most 100;
  when they exceed 100 the first swatch is 0 and the sum is theirs.
\<close>

theorem palette_percent_sum:
  assumes "kmeans_palette ext pil_img k = Inr pal" "1 \<le> k"
  shows "length pal = k
     \<and> (\<forall>s \<in> set pal. 0 \<le> percent s)
     \<and> (sum_list (map percent (tl pal)) \<le> 100 \<longrightarrow> sum_list (map percent pal) = 100)
     \<and> (100 < sum_list (map percent (tl pal)) \<longrightarrow>
          percent (hd pal) = 0 \<and> sum_list (map percent pal) = sum_list (map percent (tl pal)))"
proof -
  from assms(1) obtain labels centers where
    p: "palette_of_clusters k labels centers = Inr pal"
    by (auto simp: kmeans_palette_def Let_def split: option.splits)
  note r = palette_of_clusters_sum [OF p assms(2)]
  show ?thesis using r(1,2,3,4) by (simp add: max_def)
qed

lemma count_list_replicate: "count_list (replicate n x) y = (if x = y then n else 0)"
  by (induction n) auto

lemma bincount_uneven: "bincount uneven_labels 5 = [160, 9840, 9840, 9840, 10320]"
proof -
  have "set uneven_labels = {0, 1, 2, 3, 4}"
    by (auto simp: uneven_labels_def)
  then have "max 5 (if uneven_labels = [] then 0 else Suc (Max (set uneven_labels))) = 5"
    by simp
  moreover have "[0 ..< 5] = [0, 1, 2, 3, 4 :: nat]"
    by (simp add: upt_rec)
  ultimately show ?thesis
    by (simp add: bincount_def) (simp add: uneven_labels_def count_list_replicate)
qed

lemma bincount_solid: "bincount (replicate 40000 0) 5 = [40000, 0, 0, 0, 0]"
proof -
  have "max 5 (if replicate 40000 (0 :: nat) = [] then 0
               else Suc (Max (set (replicate 40000 (0 :: nat))))) = 5"
    by simp
  moreover have "[0 ..< 5] = [0, 1, 2, 3, 4 :: nat]"
    by (simp add: upt_rec)
  ultimately show ?thesis
    by (simp add: bincount_def) (simp add: count_list_replicate)
qed

lemma py_round_values:
  "py_round (2 / 5) = 0" "py_round (123 / 5) = 25" "py_round (129 / 5) = 26"
  "py_round 100 = 100" "py_round 0 = 0"
  by (rule py_round_near; simp)+

lemma percent_values:
  "py_round (fl64 (100 * fl64 (1 / 250))) = 0"
  "py_round (fl64 (100 * fl64 (123 / 500))) = 25"
  "py_round (fl64 (100 * fl64 (129 / 500))) = 26"
  "py_round (fl64 (100 * fl64 1)) = 100"
  "py_round (fl64 (100 * fl64 0)) = 0"
proof -
  show "py_round (fl64 (100 * fl64 (1 / 250))) = 0"
    using percent_near [of "1 / 250" 0] by simp
  show "py_round (fl64 (100 * fl64 (123 / 500))) = 25"
    using percent_near [of "123 / 500" 25] by simp
  show "py_round (fl64 (100 * fl64 (129 / 500))) = 26"
    using percent_near [of "129 / 500" 26] by simp
  show "py_round (fl64 (100 * fl64 1)) = 100"
    using percent_near [of 1 100] by simp
  show "py_round (fl64 (100 * fl64 0)) = 0"
    using percent_near [of 0 0] by simp
qed

lemma hex_values:
  "rgb_to_hex (255, 0, 0) = ''#ff0000''" "rgb_to_hex (0, 255, 0) = ''#00ff00''"
  "rgb_to_hex (0, 0, 255) = ''#0000ff''" "rgb_to_hex (255, 255, 0) = ''#ffff00''"
  "rgb_to_hex (0, 0, 0) = ''#000000''" "rgb_to_hex (128, 128, 128) = ''#808080''"
  by (simp_all add: rgb_to_hex_def fmt_02x_def hex_str.simps digit_char_def)

lemma upt_5: "[0 ..< 5] = [0, 1, 2, 3, 4 :: nat]"
  by (simp add: upt_rec)

lemma palette_uneven:
  "palette_of_clusters 5 uneven_labels
     [(255, 0, 0), (0, 255, 0), (0, 0, 255), (255, 255, 0), (0, 0, 0)]
   = Inr [\<lparr>hex = ''#ff0000'', percent = 0\<rparr>, \<lparr>hex = ''#00ff00'', percent = 25\<rparr>,
          \<lparr>hex = ''#0000ff'', percent = 25\<rparr>, \<lparr>hex = ''#ffff00'', percent = 25\<rparr>,
          \<lparr>hex = ''#000000'', percent = 26\<rparr>]"
  by (simp add: palette_of_clusters_def bincount_uneven upt_5 hex_values percent_values
      normalize_first_def Let_def)

lemma palette_solid:
  "palette_of_clusters 5 (replicate 40000 0) (replicate 5 (128, 128, 128))
   = Inr [\<lparr>hex = ''#808080'', percent = 100\<rparr>, \<lparr>hex = ''#808080'', percent = 0\<rparr>,
          \<lparr>hex = ''#808080'', percent = 0\<rparr>, \<lparr>hex = ''#808080'', percent = 0\<rparr>,
          \<lparr>hex = ''#808080'', percent = 0\<rparr>]"
  by (simp add: palette_of_clusters_def bincount_solid upt_5 hex_values percent_values
      normalize_first_def Let_def)

lemma kmeans_palette_uneven:
  "kmeans_palette uneven_lib (200, 200) 5
   = palette_of_clusters 5 uneven_labels
       [(255, 0, 0), (0, 255, 0), (0, 0, 255), (255, 255, 0), (0, 0, 0)]"
  by (simp add: kmeans_palette_def uneven_lib_def sample_lib_def Let_def)

lemma kmeans_palette_solid:
  "kmeans_palette sample_lib (8, 8) 5
   = palette_of_clusters 5 (replicate 40000 0) (replicate 5 (128, 128, 128))"
  by (simp add: kmeans_palette_def sample_lib_def Let_def)

text \<open>Claim C1 on the sample library, whose clustering puts all pixels in one cluster, and
  on the library with uneven clusters, where the other swatches exceed 100.\<close>

theorem palette_percent_sum_witness:
  "kmeans_palette sample_lib (8, 8) 5
     = Inr [\<lparr>hex = ''#808080'', percent = 100\<rparr>, \<lparr>hex = ''#808080'', percent = 0\<rparr>,
            \<lparr>hex = ''#808080'', percent = 0\<rparr>, \<lparr>hex = ''#808080'', percent = 0\<rparr>,
            \<lparr>hex = ''#808080'', percent = 0\<rparr>]
   \<and> (1 :: nat) \<le> 5
   \<and> sum_list (map percent [\<lparr>hex = ''#808080'', percent = 100\<rparr>, \<lparr>hex = ''#808080'', percent = 0\<rparr>,
            \<lparr>hex = ''#808080'', percent = 0\<rparr>, \<lparr>hex = ''#808080'', percent = 0\<rparr>,
            \<lparr>hex = ''#808080'', percent = 0\<rparr>]) = 100
   \<and> (\<exists>pal. kmeans_palette uneven_lib (200, 200) 5 = Inr pal
        \<and> 100 < sum_list (map percent (tl pal))
        \<and> percent (hd pal) = 0
        \<and> sum_list (map percent pal) = sum_list (map percent (tl pal)))"
proof -
  have run: "kmeans_palette sample_lib (8, 8) 5
     = Inr [\<lparr>hex = ''#808080'', percent = 100\<rparr>, \<lparr>hex = ''#808080'', percent = 0\<rparr>,
            \<lparr>hex = ''#808080'', percent = 0\<rparr>, \<lparr>hex = ''#808080'', percent = 0\<rparr>,
            \<lparr>hex = ''#808080'', percent = 0\<rparr>]"
    by (simp only: kmeans_palette_solid palette_solid)
  have run': "kmeans_palette uneven_lib (200, 200) 5
     = Inr [\<lparr>hex = ''#ff0000'', percent = 0\<rparr>, \<lparr>hex = ''#00ff00'', percent = 25\<rparr>,
            \<lparr>hex = ''#0000ff'', percent = 25\<rparr>, \<lparr>hex = ''#ffff00'', percent = 25\<rparr>,
            \<lparr>hex = ''#000000'', percent = 26\<rparr>]"
    by (simp only: kmeans_palette_uneven palette_uneven)
  have k: "(1 :: nat) \<le> 5" by simp
  from palette_percent_sum [OF run k]
  have a: "sum_list (map percent [\<lparr>hex = ''#808080'', percent = 100\<rparr>, \<lparr>hex = ''#808080'', percent = 0\<rparr>,
            \<lparr>hex = ''#808080'', percent = 0\<rparr>, \<lparr>hex = ''#808080'', percent = 0\<rparr>,
            \<lparr>hex = ''#808080'', percent = 0\<rparr>]) = 100"
    by simp
  from palette_percent_sum [OF run' k]
  have b: "\<exists>pal. kmeans_palette uneven_lib (200, 200) 5 = Inr pal
        \<and> 100 < sum_list (map percent (tl pal))
        \<and> percent (hd pal) = 0
        \<and> sum_list (map percent pal) = sum_list (map percent (tl pal))"
    using run' by simp
  show ?thesis by (intro conjI run k a b)
qed

text \<open>
  Claim C1 as stated fails: with clusters of 160, 9840, 9840, 9840 and 10320 of the 40000
  pixels the shares round to 0, 25, 25, 25 and 26; the first swatch cannot go below 0 and
  the percents sum to 101.
\<close>

theorem palette_sum_101:
  "kmeans_palette uneven_lib (200, 200) 5
     = Inr [\<lparr>hex = ''#ff0000'', percent = 0\<rparr>, \<lparr>hex = ''#00ff00'', percent = 25\<rparr>,
            \<lparr>hex = ''#0000ff'', percent = 25\<rparr>, \<lparr>hex = ''#ffff00'', percent = 25\<rparr>,
            \<lparr>hex = ''#000000'', percent = 26\<rparr>]
   \<and> map_sum id (\<lambda>pal. sum_list (map percent pal)) (kmeans_palette uneven_lib (200, 200) 5)
       = Inr 101"
  by (simp add: kmeans_palette_uneven palette_uneven)

end
